theory Spec2Isabelle
  imports Main "HOL-Library.Word"
begin

unbundle bit_operations_syntax

section \<open>Machine types and register constants\<close>

type_synonym u8 = "8 word"
type_synonym u16 = "16 word"
type_synonym u32 = "32 word"

text \<open>
  Modelled from the spec: the register bit masks of the absent header
  \<^verbatim>\<open>Lpc17xxHardware.h\<close>. The spec names the conditions they stand for
  (receive FIFO not empty, transmit FIFO empty, transmit FIFO not full, timer enable and
  reset, interrupt / reset / stop on match, output low on match, capture on falling
  edge); the bit positions are those of the LPC17xx SSP and timer register layout.
\<close>

definition SSP_SR_TFE :: u32 where "SSP_SR_TFE = 1"
definition SSP_SR_TNF :: u32 where "SSP_SR_TNF = 2"
definition SSP_SR_RNE :: u32 where "SSP_SR_RNE = 4"

definition TIM_TCR_ENABLE :: u32 where "TIM_TCR_ENABLE = 1"
definition TIM_TCR_RESET :: u32 where "TIM_TCR_RESET = 2"
definition TIM_IR_MASK :: u32 where "TIM_IR_MASK = 0x3F"
definition TIM_MATCH_CHANNEL_0 :: nat where "TIM_MATCH_CHANNEL_0 = 0"
definition TIM_CAPTURE_CHANNEL_0 :: nat where "TIM_CAPTURE_CHANNEL_0 = 0"

definition TIM_MCR_INT_ON_MATCH :: "nat \<Rightarrow> u32" where
  "TIM_MCR_INT_ON_MATCH ch = push_bit (3 * ch) 1"
definition TIM_MCR_RESET_ON_MATCH :: "nat \<Rightarrow> u32" where
  "TIM_MCR_RESET_ON_MATCH ch = push_bit (3 * ch + 1) 1"
definition TIM_MCR_STOP_ON_MATCH :: "nat \<Rightarrow> u32" where
  "TIM_MCR_STOP_ON_MATCH ch = push_bit (3 * ch + 2) 1"
definition TIM_EMR_LOW_ON_MATCH :: "nat \<Rightarrow> u32" where
  "TIM_EMR_LOW_ON_MATCH ch = push_bit (4 + 2 * ch) 1"
definition TIM_CCR_FALLING :: "nat \<Rightarrow> u32" where
  "TIM_CCR_FALLING ch = push_bit (3 * ch + 1) 1"

definition SSP_CR0_FRF_SPI :: u32 where "SSP_CR0_FRF_SPI = 0"
definition SSP_CR0_CPOL_HI :: u32 where "SSP_CR0_CPOL_HI = 0x40"
definition SSP_CR0_CPHA_SECOND :: u32 where "SSP_CR0_CPHA_SECOND = 0x80"
definition SSP_CR0_DSS :: "u32 \<Rightarrow> u32" where "SSP_CR0_DSS n = (n - 1) AND 0xF"
definition SSP_CR1_SSP_EN :: u32 where "SSP_CR1_SSP_EN = 2"
definition SSP_CR1_SLAVE_EN :: u32 where "SSP_CR1_SLAVE_EN = 4"
definition MIN_DATA_BIT_LENGTH :: u32 where "MIN_DATA_BIT_LENGTH = 4"
definition MAX_DATA_BIT_LENGTH :: u32 where "MAX_DATA_BIT_LENGTH = 16"
definition SPI_CONTROL_INTERFACE_MODE :: u32 where "SPI_CONTROL_INTERFACE_MODE = 3"
definition SPI_CONTROL_INTERFACE_DATABITLENGTH :: u32 where
  "SPI_CONTROL_INTERFACE_DATABITLENGTH = 8"

section \<open>Hardware state\<close>

text \<open>
  The registers the tester writes, as a record that every operation takes and returns.
  Writes to the SSP data register are kept in the order they happen (\<open>SSP0_DR_out\<close>).
  What the hardware answers when a register is read (status flags, received data,
  chip select, counter and capture values) is not state of the program: every function
  below receives those answers as an explicit argument.
\<close>

record hw =
  TIM2_TCR :: u32
  TIM2_IR :: u32
  TIM2_MCR :: u32
  TIM2_MR0 :: u32
  TIM2_EMR :: u32
  TIM2_CCR :: u32
  SSP0_CR0 :: u32
  SSP0_CR1 :: u32
  SSP0_DR_out :: "u32 list"
  PINSEL0 :: u32
  IO0IntEnR :: u32
  IO0IntClr :: u32
  IO0IntEnF :: u32
  NVIC_TIMER2 :: bool
  irq_masked :: bool
  ActLed :: bool
  remainingInterrupts :: u32
  dummy :: u32

definition MuxInterruptOutput :: "hw \<Rightarrow> hw" where
  "MuxInterruptOutput h = h\<lparr>PINSEL0 := PINSEL0 h OR push_bit 12 3\<rparr>"

definition DemuxInterruptOutput :: "hw \<Rightarrow> hw" where
  "DemuxInterruptOutput h = h\<lparr>PINSEL0 := PINSEL0 h AND NOT (push_bit 12 3)\<rparr>"

definition EnableSckFallingEdgeDetection :: "hw \<Rightarrow> hw" where
  "EnableSckFallingEdgeDetection h =
     (let h1 = h\<lparr>IO0IntEnR := IO0IntEnR h AND NOT (push_bit 15 1)\<rparr>;
          h2 = h1\<lparr>IO0IntClr := push_bit 15 1\<rparr>
      in h2\<lparr>IO0IntEnF := IO0IntEnF h2 OR push_bit 15 1\<rparr>)"

definition DisableSckFallingEdgeDetection :: "hw \<Rightarrow> hw" where
  "DisableSckFallingEdgeDetection h = h\<lparr>IO0IntEnF := IO0IntEnF h AND NOT (push_bit 15 1)\<rparr>"

text \<open>
  \<^verbatim>\<open>SspSetDataMode\<close>: modes 1 and 2 select the second clock phase, every other mode
  value (0, 3 and the \<^verbatim>\<open>default\<close> branch) adds the high clock polarity; a data bit
  length outside the supported range falls back to 8.
\<close>

definition SspSetDataMode :: "u32 \<Rightarrow> u32 \<Rightarrow> hw \<Rightarrow> hw" where
  "SspSetDataMode Mode DataBitLength h =
     (let cr0 = SSP_CR0_FRF_SPI;
          cr0 = (if Mode = 1 \<or> Mode = 2 then cr0 OR SSP_CR0_CPHA_SECOND
                 else cr0 OR (SSP_CR0_CPOL_HI OR SSP_CR0_CPHA_SECOND));
          cr0 = (if MIN_DATA_BIT_LENGTH \<le> DataBitLength \<and> DataBitLength \<le> MAX_DATA_BIT_LENGTH
                 then cr0 OR SSP_CR0_DSS DataBitLength
                 else cr0 OR SSP_CR0_DSS 8);
          h1 = h\<lparr>SSP0_CR1 := SSP_CR1_SLAVE_EN\<rparr>;
          h2 = h1\<lparr>SSP0_CR0 := cr0\<rparr>
      in h2\<lparr>SSP0_CR1 := SSP_CR1_SSP_EN OR SSP_CR1_SLAVE_EN\<rparr>)"

definition write_DR :: "u32 \<Rightarrow> hw \<Rightarrow> hw" where
  "write_DR v h = h\<lparr>SSP0_DR_out := SSP0_DR_out h @ [v]\<rparr>"

section \<open>WaitForCapture\<close>

datatype ClockMeasurementStatus = Success | EdgeNotDetected | Overflow

text \<open>
  One pass of the body of the polling loop: up to eleven reads of the capture register
  \<^verbatim>\<open>CR0\<close>, each stored in \<^verbatim>\<open>capture\<close>, leaving at the first nonzero one. The
  argument gives the value of the k-th read of this pass.
\<close>

fun poll_CR0 :: "nat \<Rightarrow> nat \<Rightarrow> (nat \<Rightarrow> u32) \<Rightarrow> u32 \<Rightarrow> u32" where
  "poll_CR0 0 k cr0 capture = capture"
| "poll_CR0 (Suc n) k cr0 capture =
     (if cr0 k \<noteq> 0 then cr0 k else poll_CR0 n (Suc k) cr0 (cr0 k))"

text \<open>
  The \<^verbatim>\<open>while (!(SR & RNE))\<close> loop. Each element of the list is one evaluation of
  the loop condition (the status register read) together with the capture register reads
  of the pass that follows it. \<open>None\<close>: the observations end with the loop still
  polling.
\<close>

fun WaitForCapture_loop :: "u32 \<Rightarrow> (u32 \<times> (nat \<Rightarrow> u32)) list \<Rightarrow> u32 option" where
  "WaitForCapture_loop capture [] = None"
| "WaitForCapture_loop capture ((sr, cr0) # ps) =
     (if sr AND SSP_SR_RNE \<noteq> 0 then Some capture
      else let c = poll_CR0 11 0 cr0 capture
           in if c \<noteq> 0 then Some c else WaitForCapture_loop c ps)"

text \<open>
  \<^verbatim>\<open>uint32_t capture;\<close> has no initialiser: its value before the first assignment
  is whatever the stack holds, the argument \<open>uninit\<close>. \<open>tc\<close> is the value of the
  free-running counter \<^verbatim>\<open>TC\<close> read for the approximation.
\<close>

definition WaitForCapture ::
  "u32 \<Rightarrow> (u32 \<times> (nat \<Rightarrow> u32)) list \<Rightarrow> u32 \<Rightarrow> (ClockMeasurementStatus \<times> u32) option" where
  "WaitForCapture uninit polls tc =
     (case WaitForCapture_loop uninit polls of
        None \<Rightarrow> None
      | Some capture \<Rightarrow>
          if capture \<noteq> 0 then Some (Success, capture)
          else Some (EdgeNotDetected, tc))"

section \<open>CaptureTransfer\<close>

record CaptureNextTransferCommand =
  Mode :: u32
  DataBitLength :: u32
  SendValue :: u32
  ReceiveValue :: u32

record TransferInfo =
  Checksum :: u32
  ElementCount :: u32
  MismatchIndex :: u32
  ClockActiveTime :: u32
  ClockActiveTimeStatus :: ClockMeasurementStatus

definition TransferInfo_init :: TransferInfo where
  "TransferInfo_init =
     \<lparr>Checksum = 0, ElementCount = 0, MismatchIndex = 0, ClockActiveTime = 0,
      ClockActiveTimeStatus = Success\<rparr>"

text \<open>The local variables of \<^verbatim>\<open>CaptureTransfer\<close> that its loop changes.\<close>

record capture_locals =
  checksum :: u32
  rxValue :: u32
  txValue :: u32
  mismatchDetected :: bool
  transferInfo :: TransferInfo
  cap_hw :: hw

definition dataMask_of :: "u32 \<Rightarrow> u32" where
  "dataMask_of bits = push_bit (unat bits) 1 - 1"

definition send_next :: "u32 \<Rightarrow> capture_locals \<Rightarrow> capture_locals" where
  "send_next dataMask s =
     s\<lparr>cap_hw := write_DR (txValue s AND dataMask) (cap_hw s), txValue := txValue s + 1\<rparr>"

fun initial_fill :: "nat \<Rightarrow> u32 \<Rightarrow> capture_locals \<Rightarrow> capture_locals" where
  "initial_fill 0 dataMask s = s"
| "initial_fill (Suc n) dataMask s = initial_fill n dataMask (send_next dataMask s)"

text \<open>
  The receive branch of the loop body for one element \<open>data\<close> read from the data
  register. \<open>crc\<close> stands for \<^verbatim>\<open>crc16_update\<close>, whose definition is not among the
  sources.
\<close>

definition receive_element ::
  "(u32 \<Rightarrow> u8 \<Rightarrow> u32) \<Rightarrow> u32 \<Rightarrow> u32 \<Rightarrow> u32 \<Rightarrow> capture_locals \<Rightarrow> capture_locals" where
  "receive_element crc dataMask sendValue data s =
     (let s1 = s\<lparr>checksum := crc (checksum s) (ucast data)\<rparr>;
          s2 = (if dataMask AND push_bit 8 1 \<noteq> 0
                then s1\<lparr>checksum := crc (checksum s1) (ucast (drop_bit 8 data))\<rparr>
                else s1);
          s3 = (if data \<noteq> (rxValue s2 AND dataMask) \<and> \<not> mismatchDetected s2
                then s2\<lparr>mismatchDetected := True,
                        transferInfo := (transferInfo s2)\<lparr>MismatchIndex := rxValue s2 - sendValue\<rparr>\<rparr>
                else s2)
      in s3\<lparr>rxValue := rxValue s3 + 1\<rparr>)"

definition refill :: "u32 \<Rightarrow> u32 \<Rightarrow> capture_locals \<Rightarrow> capture_locals" where
  "refill dataMask status s =
     (if status AND SSP_SR_TNF \<noteq> 0 then send_next dataMask s else s)"

text \<open>
  The \<^verbatim>\<open>for (;;)\<close> loop. Each element of the list is one iteration as the hardware
  answers it: the status register, the data register (read only when the status has
  RNE) and the chip select (read only when it has not). \<open>None\<close>: the observations
  end before the loop leaves.
\<close>

fun CaptureTransfer_loop ::
  "(u32 \<Rightarrow> u8 \<Rightarrow> u32) \<Rightarrow> u32 \<Rightarrow> u32 \<Rightarrow> (u32 \<times> u32 \<times> bool) list \<Rightarrow> capture_locals
     \<Rightarrow> capture_locals option" where
  "CaptureTransfer_loop crc dataMask sendValue [] s = None"
| "CaptureTransfer_loop crc dataMask sendValue ((status, data, cs) # ps) s =
     (if status AND SSP_SR_RNE \<noteq> 0
      then CaptureTransfer_loop crc dataMask sendValue ps
             (refill dataMask status (receive_element crc dataMask sendValue data s))
      else if \<not> cs then Some s
      else CaptureTransfer_loop crc dataMask sendValue ps (refill dataMask status s))"

text \<open>What the hardware answers during one \<^verbatim>\<open>CaptureTransfer\<close>.\<close>

record capture_env =
  cs_asserts :: bool
  uninit_capture :: u32
  capture_polls :: "(u32 \<times> (nat \<Rightarrow> u32)) list"
  tc_read :: u32
  transfer_polls :: "(u32 \<times> u32 \<times> bool) list"
  tcr_read :: u32
  cr0_read :: u32

definition CaptureTransfer_finish ::
  "CaptureNextTransferCommand \<Rightarrow> capture_env \<Rightarrow> u32 \<Rightarrow> capture_locals \<Rightarrow> TransferInfo \<times> hw" where
  "CaptureTransfer_finish cmd env capture1 s =
     (let h = (cap_hw s)\<lparr>irq_masked := False\<rparr>;
          ti = transferInfo s;
          (ti, h) =
            (if ClockActiveTimeStatus ti = Success
             then (if tcr_read env AND TIM_TCR_ENABLE = 0
                   then (ti\<lparr>ClockActiveTimeStatus := Overflow\<rparr>, h)
                   else (ti\<lparr>ClockActiveTime := cr0_read env - capture1\<rparr>,
                         h\<lparr>TIM2_TCR := TIM_TCR_RESET\<rparr>))
             else (ti, h));
          ti = ti\<lparr>Checksum := checksum s\<rparr>;
          ti = ti\<lparr>ElementCount := rxValue s - SendValue cmd\<rparr>;
          ti = (if \<not> mismatchDetected s then ti\<lparr>MismatchIndex := ElementCount ti\<rparr> else ti)
      in (ti, SspSetDataMode SPI_CONTROL_INTERFACE_MODE SPI_CONTROL_INTERFACE_DATABITLENGTH h))"

definition CaptureTransfer ::
  "(u32 \<Rightarrow> u8 \<Rightarrow> u32) \<Rightarrow> CaptureNextTransferCommand \<Rightarrow> capture_env \<Rightarrow> hw
     \<Rightarrow> (TransferInfo \<times> hw) option" where
  "CaptureTransfer crc cmd env h0 =
     (let dataMask = dataMask_of (DataBitLength cmd);
          h = SspSetDataMode (Mode cmd) (DataBitLength cmd) h0;
          h = h\<lparr>TIM2_TCR := TIM_TCR_RESET\<rparr>;
          h = h\<lparr>TIM2_MCR := TIM_MCR_STOP_ON_MATCH TIM_MATCH_CHANNEL_0\<rparr>;
          h = h\<lparr>TIM2_MR0 := 0xffffffff\<rparr>;
          h = h\<lparr>TIM2_CCR := TIM_CCR_FALLING TIM_CAPTURE_CHANNEL_0\<rparr>;
          h = h\<lparr>irq_masked := True\<rparr>;
          s = \<lparr>checksum = 0, rxValue = SendValue cmd, txValue = ReceiveValue cmd,
               mismatchDetected = False, transferInfo = TransferInfo_init, cap_hw = h\<rparr>;
          s = initial_fill 8 dataMask s
      in if \<not> cs_asserts env then None
         else
           let s = s\<lparr>cap_hw := (cap_hw s)\<lparr>TIM2_TCR := TIM_TCR_ENABLE\<rparr>\<rparr>
           in (case WaitForCapture (uninit_capture env) (capture_polls env) (tc_read env) of
                None \<Rightarrow> None
              | Some (st, capture1) \<Rightarrow>
                  let s = s\<lparr>transferInfo := (transferInfo s)\<lparr>ClockActiveTimeStatus := st\<rparr>\<rparr>
                  in (case CaptureTransfer_loop crc dataMask (SendValue cmd) (transfer_polls env) s of
                        None \<Rightarrow> None
                      | Some s' \<Rightarrow> Some (CaptureTransfer_finish cmd env capture1 s'))))"

section \<open>The response checksum of SspSendImpl\<close>

text \<open>
  \<^verbatim>\<open>SspSendImpl\<close> treats the response structure as the bytes it occupies. The model
  is that byte sequence \<open>mem\<close>; \<open>cko\<close> is the offset of the two-byte, little-endian
  field \<^verbatim>\<open>Header.Checksum\<close> in it (the layout of \<^verbatim>\<open>TransferHeader\<close> is not among
  the sources), and \<open>crc16 bs\<close> stands for \<^verbatim>\<open>Crc16().Update\<close> over the bytes \<open>bs\<close>.
\<close>

definition store_Checksum :: "nat \<Rightarrow> u16 \<Rightarrow> u8 list \<Rightarrow> u8 list" where
  "store_Checksum cko c mem = mem[cko := ucast c, Suc cko := ucast (drop_bit 8 c)]"

definition load_Checksum :: "nat \<Rightarrow> u8 list \<Rightarrow> u16" where
  "load_Checksum cko mem = (ucast (mem ! cko)) OR push_bit 8 (ucast (mem ! Suc cko))"

text \<open>
  The first two statements of \<^verbatim>\<open>SspSendImpl\<close>: clear the field, then store the CRC
  of the first \<^verbatim>\<open>Header.Length\<close> bytes (\<open>len\<close>) in it.
\<close>

definition SspSendImpl_checksum :: "(u8 list \<Rightarrow> u16) \<Rightarrow> nat \<Rightarrow> nat \<Rightarrow> u8 list \<Rightarrow> u8 list" where
  "SspSendImpl_checksum crc16 cko len mem =
     (let mem0 = store_Checksum cko 0 mem
      in store_Checksum cko (crc16 (take len mem0)) mem0)"

text \<open>The bytes the function then hands to the transmit FIFO when nothing cuts it short.\<close>

definition SspSendImpl_frame :: "(u8 list \<Rightarrow> u16) \<Rightarrow> nat \<Rightarrow> nat \<Rightarrow> u8 list \<Rightarrow> u8 list" where
  "SspSendImpl_frame crc16 cko len mem = take len (SspSendImpl_checksum crc16 cko len mem)"

text \<open>
  \<^verbatim>\<open>WaitForCsToDeassert\<close> reads the data register into \<^verbatim>\<open>dummy\<close> while the chip
  select is asserted or the receive FIFO holds data. \<open>reads\<close> are the values it reads;
  \<open>ends\<close> is False when the observations end with the loop still running.
\<close>

definition WaitForCsToDeassert :: "u32 list \<Rightarrow> bool \<Rightarrow> hw \<Rightarrow> hw option" where
  "WaitForCsToDeassert reads ends h =
     (if ends then Some (foldl (\<lambda>h v. h\<lparr>dummy := v\<rparr>) h reads) else None)"

fun preload :: "u8 list \<Rightarrow> hw \<Rightarrow> hw" where
  "preload [] h = h"
| "preload (b # bs) h = preload bs (write_DR (ucast b) h)"

text \<open>
  The feeding loop of \<^verbatim>\<open>SspSendImpl\<close> over the bytes not yet written. Each element
  of the list is one iteration: the status register and the chip select read at its
  end. The result tells whether the loop ran to its end (True) or left through the
  \<^verbatim>\<open>return\<close> on a deasserted chip select (False). The local \<^verbatim>\<open>transmitUnderrun\<close>
  only selects a debug message and has no counterpart here.
\<close>

fun send_rest :: "u8 list \<Rightarrow> (u32 \<times> bool) list \<Rightarrow> hw \<Rightarrow> (bool \<times> hw) option" where
  "send_rest [] ps h = Some (True, h)"
| "send_rest (b # bs) [] h = None"
| "send_rest (b # bs) ((status, cs) # ps) h =
     (if status AND SSP_SR_TNF \<noteq> 0
      then (if \<not> cs then Some (False, write_DR (ucast b) h)
            else send_rest bs ps (write_DR (ucast b) h))
      else (if \<not> cs then Some (False, h) else send_rest (b # bs) ps h))"

record send_env =
  sr_at_entry :: u32
  send_cs_asserts :: bool
  send_polls :: "(u32 \<times> bool) list"
  send_drained :: "u32 list"
  send_cs_deasserts :: bool

definition SspSendImpl ::
  "(u8 list \<Rightarrow> u16) \<Rightarrow> nat \<Rightarrow> nat \<Rightarrow> send_env \<Rightarrow> u8 list \<Rightarrow> hw \<Rightarrow> (u8 list \<times> hw) option" where
  "SspSendImpl crc16 cko len env mem h =
     (let mem = SspSendImpl_checksum crc16 cko len mem
      in if sr_at_entry env AND SSP_SR_TFE = 0 then Some (mem, h)
         else
           let h = preload (take (min len 8) mem) h
           in if \<not> send_cs_asserts env then None
              else (case send_rest (drop (min len 8) (take len mem)) (send_polls env)
                           (h\<lparr>irq_masked := True\<rparr>) of
                      None \<Rightarrow> None
                    | Some (False, h) \<Rightarrow> Some (mem, h\<lparr>irq_masked := False\<rparr>)
                    | Some (True, h) \<Rightarrow>
                        (case WaitForCsToDeassert (send_drained env) (send_cs_deasserts env)
                                (h\<lparr>irq_masked := False\<rparr>) of
                           None \<Rightarrow> None
                         | Some h \<Rightarrow> Some (mem, h))))"

section \<open>RunPeriodicInterrupts\<close>

text \<open>
  The parameters of \<^verbatim>\<open>StartPeriodicInterrupts\<close>. The command block is eight bytes
  (the \<^verbatim>\<open>static_assert\<close> in the loop): beside the command byte and the 32-bit
  \<^verbatim>\<open>InterruptFrequency\<close> at most 16 bits are left for \<^verbatim>\<open>DurationInSeconds\<close>.
\<close>

record StartPeriodicInterruptsCommand =
  DurationInSeconds :: u16
  InterruptFrequency :: u32

text \<open>
  Modelled from the spec: \<^verbatim>\<open>ComputeInterruptCount\<close>, a member of the command block
  whose definition is not among the sources. The spec: the total interrupt count is
  computed from the requested duration and frequency, and the computation fails when
  DurationInSeconds \<times> InterruptFrequency does not fit the representable
  interrupt-count range (the count is a 32-bit unsigned value).
\<close>

definition ComputeInterruptCount :: "StartPeriodicInterruptsCommand \<Rightarrow> u32 option" where
  "ComputeInterruptCount cmd =
     (let n = unat (DurationInSeconds cmd) * unat (InterruptFrequency cmd)
      in if n < 2 ^ 32 then Some (of_nat n) else None)"

text \<open>
  The two protocol constants the function uses and the sources do not define: the
  command code \<^verbatim>\<open>SpiTesterCommand::AcknowledgeInterrupt\<close> and the sentinel
  \<^verbatim>\<open>INVALID_TIME_SINCE_FALLING_EDGE\<close>. Every function below takes them as \<open>K\<close>.
\<close>

record protocol =
  AcknowledgeInterrupt :: u32
  INVALID_TIME_SINCE_FALLING_EDGE :: u32

record StatusFlags =
  ArithmeticOverflow :: bool
  NotAcknowledged :: bool
  IncompleteReceive :: bool
  IncompleteTransmit :: bool
  TransmitUnderrun :: bool

record PeriodicInterruptInfo =
  Status :: StatusFlags
  InterruptCount :: u32
  AcknowledgedBeforeDeadlineCount :: u32
  AcknowledgedAfterDeadlineCount :: u32
  AlreadyAcknowledgedCount :: u32

definition PeriodicInterruptInfo_init :: PeriodicInterruptInfo where
  "PeriodicInterruptInfo_init =
     \<lparr>Status = \<lparr>ArithmeticOverflow = False, NotAcknowledged = False,
                 IncompleteReceive = False, IncompleteTransmit = False,
                 TransmitUnderrun = False\<rparr>,
      InterruptCount = 0, AcknowledgedBeforeDeadlineCount = 0,
      AcknowledgedAfterDeadlineCount = 0, AlreadyAcknowledgedCount = 0\<rparr>"

text \<open>The reply to one acknowledgement (its second field is \<^verbatim>\<open>Checksum\<close> in the source).\<close>

record AcknowledgeInterruptInfo =
  TimeSinceFallingEdge :: u32
  AckChecksum :: u32

definition u32_bytes :: "u32 \<Rightarrow> u8 list" where
  "u32_bytes w = [ucast w, ucast (drop_bit 8 w), ucast (drop_bit 16 w), ucast (drop_bit 24 w)]"

definition ackInfo_bytes :: "AcknowledgeInterruptInfo \<Rightarrow> u8 list" where
  "ackInfo_bytes a = u32_bytes (TimeSinceFallingEdge a) @ u32_bytes (AckChecksum a)"

subsection \<open>The timer interrupt\<close>

definition TIMER2_IRQHandler :: "hw \<Rightarrow> hw" where
  "TIMER2_IRQHandler h =
     (let h = h\<lparr>TIM2_IR := TIM_IR_MASK\<rparr>;
          h = h\<lparr>remainingInterrupts := remainingInterrupts h - 1\<rparr>
      in if remainingInterrupts h = 0
         then (let h = h\<lparr>TIM2_TCR := TIM_TCR_RESET\<rparr>;
                   h = h\<lparr>TIM2_MCR := 0\<rparr>
               in h\<lparr>TIM2_TCR := TIM_TCR_ENABLE\<rparr>)
         else h)"

text \<open>
  A match of the running timer reaches the handler when the match unit raises an
  interrupt on match, the interrupt is enabled at the controller and interrupts are not
  masked. \<open>deliver_irqs n\<close> is n matches in a row.
\<close>

definition irq_deliverable :: "hw \<Rightarrow> bool" where
  "irq_deliverable h \<longleftrightarrow>
     NVIC_TIMER2 h \<and> \<not> irq_masked h \<and> TIM2_TCR h = TIM_TCR_ENABLE \<and>
     TIM2_MCR h AND TIM_MCR_INT_ON_MATCH TIM_MATCH_CHANNEL_0 \<noteq> 0"

fun deliver_irqs :: "nat \<Rightarrow> hw \<Rightarrow> hw" where
  "deliver_irqs 0 h = h"
| "deliver_irqs (Suc n) h =
     deliver_irqs n (if irq_deliverable h then TIMER2_IRQHandler h else h)"

subsection \<open>One acknowledgement\<close>

record periodic_locals =
  alreadyAckedCount :: u32
  ackedPastDeadlineCount :: u32
  ackedBeforeDeadlineCount :: u32
  lastAckedInterruptCount :: u32
  interruptInfo :: PeriodicInterruptInfo

definition set_ArithmeticOverflow :: "PeriodicInterruptInfo \<Rightarrow> PeriodicInterruptInfo" where
  "set_ArithmeticOverflow i = i\<lparr>Status := (Status i)\<lparr>ArithmeticOverflow := True\<rparr>\<rparr>"
definition set_NotAcknowledged :: "PeriodicInterruptInfo \<Rightarrow> PeriodicInterruptInfo" where
  "set_NotAcknowledged i = i\<lparr>Status := (Status i)\<lparr>NotAcknowledged := True\<rparr>\<rparr>"
definition set_IncompleteReceive :: "PeriodicInterruptInfo \<Rightarrow> PeriodicInterruptInfo" where
  "set_IncompleteReceive i = i\<lparr>Status := (Status i)\<lparr>IncompleteReceive := True\<rparr>\<rparr>"
definition set_IncompleteTransmit :: "PeriodicInterruptInfo \<Rightarrow> PeriodicInterruptInfo" where
  "set_IncompleteTransmit i = i\<lparr>Status := (Status i)\<lparr>IncompleteTransmit := True\<rparr>\<rparr>"
definition set_TransmitUnderrun :: "PeriodicInterruptInfo \<Rightarrow> PeriodicInterruptInfo" where
  "set_TransmitUnderrun i = i\<lparr>Status := (Status i)\<lparr>TransmitUnderrun := True\<rparr>\<rparr>"

text \<open>
  The block that prepares the reply. \<open>remaining\<close> is the value of
  \<^verbatim>\<open>remainingInterrupts\<close> it reads. \<^verbatim>\<open>int difference\<close> is the 32-bit difference read
  as a signed value. \<open>Inl\<close>: the \<^verbatim>\<open>return\<close> of the negative branch.
\<close>

definition acknowledge ::
  "protocol \<Rightarrow> u32 \<Rightarrow> u32 \<Rightarrow> u32 \<Rightarrow> periodic_locals
     \<Rightarrow> PeriodicInterruptInfo + (AcknowledgeInterruptInfo \<times> periodic_locals)" where
  "acknowledge K period capture remaining l =
     (let difference = lastAckedInterruptCount l - remaining
      in if sint difference < 0 then Inl (set_ArithmeticOverflow (interruptInfo l))
         else
           let (t, l) =
                 (if difference = 0
                  then (INVALID_TIME_SINCE_FALLING_EDGE K,
                        l\<lparr>alreadyAckedCount := alreadyAckedCount l + 1\<rparr>)
                  else if difference = 1
                  then (capture, l\<lparr>ackedBeforeDeadlineCount := ackedBeforeDeadlineCount l + 1\<rparr>)
                  else ((difference - 1) * period + capture,
                        l\<lparr>ackedPastDeadlineCount := ackedPastDeadlineCount l + 1\<rparr>));
               l = l\<lparr>lastAckedInterruptCount := lastAckedInterruptCount l - difference\<rparr>
           in Inr (\<lparr>TimeSinceFallingEdge = t, AckChecksum = NOT t\<rparr>, l))"

text \<open>
  The loop that sends the reply, over the bytes not yet written. Each element of the
  list is one iteration: the status register and the chip select read at its end.
\<close>

fun send_ack ::
  "u8 list \<Rightarrow> (u32 \<times> bool) list \<Rightarrow> PeriodicInterruptInfo \<Rightarrow> hw
     \<Rightarrow> (PeriodicInterruptInfo \<times> hw) option" where
  "send_ack [] ps i h = Some (i, h)"
| "send_ack (b # bs) [] i h = None"
| "send_ack (b # bs) ((status, cs) # ps) i h =
     (if status AND SSP_SR_TFE \<noteq> 0 then Some (set_TransmitUnderrun i, h)
      else if status AND SSP_SR_TNF \<noteq> 0
      then (if \<not> cs then Some (set_IncompleteTransmit i, write_DR (ucast b) h)
            else send_ack bs ps i (write_DR (ucast b) h))
      else (if \<not> cs then Some (set_IncompleteTransmit i, h)
            else send_ack (b # bs) ps i h))"

text \<open>The eight dummy exchanges at the top of the loop body; \<open>rd k\<close> is the k-th read.\<close>

fun flush_fifo :: "nat \<Rightarrow> nat \<Rightarrow> (nat \<Rightarrow> u32) \<Rightarrow> hw \<Rightarrow> hw" where
  "flush_fifo 0 k rd h = h"
| "flush_fifo (Suc n) k rd h = flush_fifo n (Suc k) rd ((write_DR 0 h)\<lparr>dummy := rd k\<rparr>)"

datatype rx_wait = RxByte u32 | RxCsDeasserted | RxStalled

text \<open>What the hardware and the master do during one pass of the loop body.\<close>

record ack_round =
  flush_reads :: "nat \<Rightarrow> u32"
  irqs_before :: nat
  sck_edge :: bool
  tc_at_edge :: u32
  first_rx :: rx_wait
  reply_polls :: "(u32 \<times> bool) list"
  drained :: "u32 list"
  cs_deasserts :: bool
  irqs_after :: nat

datatype failure = DivideByZero | Blocked

datatype round_result =
    RoundAborted PeriodicInterruptInfo hw
  | RoundDone periodic_locals hw

text \<open>
  The body of \<^verbatim>\<open>while (this->remainingInterrupts)\<close>. The timer interrupts that
  arrive while the body waits for the falling edge of SCK are delivered before the
  counter is read; from \<^verbatim>\<open>DisableIrq\<close> to the end of the body none is.
\<close>

definition ack_round_body ::
  "protocol \<Rightarrow> u32 \<Rightarrow> ack_round \<Rightarrow> periodic_locals \<Rightarrow> hw \<Rightarrow> failure + round_result" where
  "ack_round_body K period r l h =
     (let h = flush_fifo 8 0 (flush_reads r) h;
          h = deliver_irqs (irqs_before r) h
      in if \<not> sck_edge r then Inl Blocked
         else
           let h = h\<lparr>IO0IntClr := push_bit 15 1\<rparr>;
               capture = tc_at_edge r;
               h = h\<lparr>TIM2_EMR := TIM2_EMR h OR push_bit TIM_MATCH_CHANNEL_0 1\<rparr>;
               h = h\<lparr>irq_masked := True\<rparr>
           in (case first_rx r of
                 RxStalled \<Rightarrow> Inl Blocked
               | RxCsDeasserted \<Rightarrow> Inr (RoundAborted (set_IncompleteReceive (interruptInfo l)) h)
               | RxByte commandByte \<Rightarrow>
                   if commandByte \<noteq> AcknowledgeInterrupt K
                   then (case WaitForCsToDeassert (drained r) (cs_deasserts r) h of
                           None \<Rightarrow> Inl Blocked
                         | Some h \<Rightarrow> Inr (RoundAborted (set_NotAcknowledged (interruptInfo l)) h))
                   else
                     (case acknowledge K period capture (remainingInterrupts h) l of
                        Inl i \<Rightarrow> Inr (RoundAborted i h)
                      | Inr (ackInfo, l) \<Rightarrow>
                          (case send_ack (ackInfo_bytes ackInfo) (reply_polls r) (interruptInfo l) h of
                             None \<Rightarrow> Inl Blocked
                           | Some (i, h) \<Rightarrow>
                               (case WaitForCsToDeassert (drained r) (cs_deasserts r) h of
                                  None \<Rightarrow> Inl Blocked
                                | Some h \<Rightarrow>
                                    Inr (RoundDone (l\<lparr>interruptInfo := i\<rparr>)
                                           (h\<lparr>irq_masked := False\<rparr>)))))))"

subsection \<open>The session\<close>

datatype loop_exit =
    Aborted PeriodicInterruptInfo hw
  | Completed periodic_locals hw

text \<open>
  \<^verbatim>\<open>while (this->remainingInterrupts)\<close> over the rounds the master performs. After
  each body the interrupts that became deliverable again arrive before the condition is
  read. \<open>Inl Blocked\<close>: the counter is not zero and nothing more happens on the bus.
\<close>

fun periodic_loop ::
  "protocol \<Rightarrow> u32 \<Rightarrow> ack_round list \<Rightarrow> periodic_locals \<Rightarrow> hw \<Rightarrow> failure + loop_exit" where
  "periodic_loop K period [] l h =
     (if remainingInterrupts h = 0 then Inr (Completed l h) else Inl Blocked)"
| "periodic_loop K period (r # rs) l h =
     (if remainingInterrupts h = 0 then Inr (Completed l h)
      else (case ack_round_body K period r l h of
              Inl f \<Rightarrow> Inl f
            | Inr (RoundAborted i h') \<Rightarrow> Inr (Aborted i h')
            | Inr (RoundDone l' h') \<Rightarrow>
                periodic_loop K period rs l' (deliver_irqs (irqs_after r) h')))"

text \<open>The body of the \<^verbatim>\<open>Finally\<close> object (\<^verbatim>\<open>ActLedOff\<close> switches the activity LED off).\<close>

definition finally_teardown :: "hw \<Rightarrow> hw" where
  "finally_teardown h =
     (let h = DisableSckFallingEdgeDetection h;
          h = h\<lparr>TIM2_TCR := TIM_TCR_RESET\<rparr>;
          h = h\<lparr>NVIC_TIMER2 := False\<rparr>;
          h = h\<lparr>TIM2_EMR := push_bit TIM_MATCH_CHANNEL_0 1\<rparr>;
          h = DemuxInterruptOutput h
      in h\<lparr>ActLed := False\<rparr>)"

record periodic_env =
  irqs_at_start :: nat
  rounds :: "ack_round list"

text \<open>The part of the function up to the call of \<^verbatim>\<open>ComputeInterruptCount\<close>.\<close>

definition program_timer :: "u32 \<Rightarrow> hw \<Rightarrow> hw" where
  "program_timer period h =
     (let h = h\<lparr>TIM2_TCR := TIM_TCR_RESET\<rparr>;
          h = h\<lparr>TIM2_IR := TIM_IR_MASK\<rparr>;
          h = h\<lparr>TIM2_MCR := TIM_MCR_INT_ON_MATCH TIM_MATCH_CHANNEL_0 OR
                              TIM_MCR_RESET_ON_MATCH TIM_MATCH_CHANNEL_0\<rparr>;
          h = h\<lparr>TIM2_MR0 := period\<rparr>;
          h = h\<lparr>TIM2_EMR := push_bit TIM_MATCH_CHANNEL_0 1 OR
                              TIM_EMR_LOW_ON_MATCH TIM_MATCH_CHANNEL_0\<rparr>
      in h\<lparr>TIM2_CCR := 0\<rparr>)"

text \<open>The part from the assignment of \<^verbatim>\<open>remainingInterrupts\<close> to the start of the timer.\<close>

definition start_interrupts :: "u32 \<Rightarrow> hw \<Rightarrow> hw" where
  "start_interrupts interruptCount h =
     (let h = h\<lparr>remainingInterrupts := interruptCount\<rparr>;
          h = MuxInterruptOutput h;
          h = h\<lparr>NVIC_TIMER2 := True\<rparr>
      in h\<lparr>TIM2_TCR := TIM_TCR_ENABLE\<rparr>)"

definition report :: "u32 \<Rightarrow> periodic_locals \<Rightarrow> PeriodicInterruptInfo" where
  "report interruptCount l =
     (interruptInfo l)
       \<lparr>InterruptCount := interruptCount,
        AcknowledgedBeforeDeadlineCount := ackedBeforeDeadlineCount l,
        AcknowledgedAfterDeadlineCount := ackedPastDeadlineCount l,
        AlreadyAcknowledgedCount := alreadyAckedCount l\<rparr>"

text \<open>The local variables and the hardware as the loop finds them the first time.\<close>

definition loop_entry_locals :: "u32 \<Rightarrow> periodic_locals" where
  "loop_entry_locals interruptCount =
     \<lparr>alreadyAckedCount = 0, ackedPastDeadlineCount = 0, ackedBeforeDeadlineCount = 0,
      lastAckedInterruptCount = interruptCount, interruptInfo = PeriodicInterruptInfo_init\<rparr>"

definition loop_entry_hw :: "u32 \<Rightarrow> periodic_env \<Rightarrow> hw \<Rightarrow> hw" where
  "loop_entry_hw interruptCount env h =
     deliver_irqs (irqs_at_start env)
       (EnableSckFallingEdgeDetection (start_interrupts interruptCount h))"

text \<open>
  \<open>clockFreq\<close> is \<^verbatim>\<open>testerInfo.ClockMeasurementFrequency\<close>. The division by an
  interrupt frequency of zero has no defined result and is a failure of its own. On the
  two kinds of \<^verbatim>\<open>return\<close> inside the loop \<^verbatim>\<open>DisableIrq\<close> goes out of scope first,
  then the \<^verbatim>\<open>Finally\<close> object; the \<^verbatim>\<open>return\<close> after \<^verbatim>\<open>ComputeInterruptCount\<close>
  comes before that object exists.
\<close>

definition RunPeriodicInterrupts ::
  "protocol \<Rightarrow> u32 \<Rightarrow> StartPeriodicInterruptsCommand \<Rightarrow> periodic_env \<Rightarrow> hw
     \<Rightarrow> failure + (PeriodicInterruptInfo \<times> hw)" where
  "RunPeriodicInterrupts K clockFreq cmd env h =
     (if InterruptFrequency cmd = 0 then Inl DivideByZero
      else
        let period = clockFreq div InterruptFrequency cmd;
            h = program_timer period h
        in (case ComputeInterruptCount cmd of
              None \<Rightarrow> Inr (set_ArithmeticOverflow PeriodicInterruptInfo_init, h)
            | Some interruptCount \<Rightarrow>
                (case periodic_loop K period (rounds env) (loop_entry_locals interruptCount)
                        (loop_entry_hw interruptCount env h) of
                   Inl f \<Rightarrow> Inl f
                 | Inr (Aborted i h) \<Rightarrow> Inr (i, finally_teardown (h\<lparr>irq_masked := False\<rparr>))
                 | Inr (Completed l h) \<Rightarrow> Inr (report interruptCount l, finally_teardown h))))"

subsection \<open>Notions the statements below use\<close>

text \<open>The number of loop bodies a run of the loop carries to their end.\<close>

fun completed_rounds ::
  "protocol \<Rightarrow> u32 \<Rightarrow> ack_round list \<Rightarrow> periodic_locals \<Rightarrow> hw \<Rightarrow> nat" where
  "completed_rounds K period [] l h = 0"
| "completed_rounds K period (r # rs) l h =
     (if remainingInterrupts h = 0 then 0
      else (case ack_round_body K period r l h of
              Inr (RoundDone l' h') \<Rightarrow>
                Suc (completed_rounds K period rs l' (deliver_irqs (irqs_after r) h'))
            | _ \<Rightarrow> 0))"

definition session_rounds ::
  "protocol \<Rightarrow> u32 \<Rightarrow> StartPeriodicInterruptsCommand \<Rightarrow> periodic_env \<Rightarrow> hw \<Rightarrow> nat" where
  "session_rounds K clockFreq cmd env h =
     (case ComputeInterruptCount cmd of
        None \<Rightarrow> 0
      | Some interruptCount \<Rightarrow>
          completed_rounds K (clockFreq div InterruptFrequency cmd) (rounds env)
            (loop_entry_locals interruptCount)
            (loop_entry_hw interruptCount env
               (program_timer (clockFreq div InterruptFrequency cmd) h)))"

text \<open>The state the teardown leaves, register by register.\<close>

definition torn_down :: "hw \<Rightarrow> bool" where
  "torn_down h \<longleftrightarrow>
     IO0IntEnF h AND push_bit 15 1 = 0 \<and>
     TIM2_TCR h = TIM_TCR_RESET \<and>
     \<not> NVIC_TIMER2 h \<and>
     TIM2_EMR h = push_bit TIM_MATCH_CHANNEL_0 1 \<and>
     PINSEL0 h AND push_bit 12 3 = 0 \<and>
     \<not> ActLed h"

text \<open>
  The elements a transfer delivers: the data of the iterations that find the receive
  FIFO not empty, up to the iteration that leaves the loop.
\<close>

fun received :: "(u32 \<times> u32 \<times> bool) list \<Rightarrow> u32 list" where
  "received [] = []"
| "received ((status, data, cs) # ps) =
     (if status AND SSP_SR_RNE \<noteq> 0 then data # received ps
      else if \<not> cs then [] else received ps)"

text \<open>
  The index of the first element that differs from the value expected at its place,
  when the expected value of the first element is \<open>v\<close> and each next one is one more.
\<close>

fun first_mismatch :: "u32 \<Rightarrow> u32 \<Rightarrow> u32 list \<Rightarrow> nat option" where
  "first_mismatch dataMask v [] = None"
| "first_mismatch dataMask v (d # ds) =
     (if d \<noteq> (v AND dataMask) then Some 0
      else map_option Suc (first_mismatch dataMask (v + 1) ds))"

text \<open>
  A report as the loop keeps it while no \<^verbatim>\<open>return\<close> inside the loop has happened: no
  count filled in and none of the three flags that a \<^verbatim>\<open>return\<close> inside the function sets.
\<close>

definition clean_info :: "PeriodicInterruptInfo \<Rightarrow> bool" where
  "clean_info i \<longleftrightarrow>
     InterruptCount i = 0 \<and> AcknowledgedBeforeDeadlineCount i = 0 \<and>
     AcknowledgedAfterDeadlineCount i = 0 \<and> AlreadyAcknowledgedCount i = 0 \<and>
     \<not> ArithmeticOverflow (Status i) \<and> \<not> NotAcknowledged (Status i) \<and>
     \<not> IncompleteReceive (Status i)"

text \<open>The sum of the three counters of the loop.\<close>

definition acked_total :: "periodic_locals \<Rightarrow> u32" where
  "acked_total l = alreadyAckedCount l + ackedBeforeDeadlineCount l + ackedPastDeadlineCount l"

subsection \<open>Concrete inputs\<close>

definition K0 :: protocol where
  "K0 = \<lparr>AcknowledgeInterrupt = 4, INVALID_TIME_SINCE_FALLING_EDGE = 0xFFFFFFFF\<rparr>"

text \<open>The hardware between two commands: the timer stopped, no interrupt enabled, the LED on.\<close>

definition hw0 :: hw where
  "hw0 = \<lparr>TIM2_TCR = 0, TIM2_IR = 0, TIM2_MCR = 0, TIM2_MR0 = 0, TIM2_EMR = 1, TIM2_CCR = 0,
          SSP0_CR0 = 0xC7, SSP0_CR1 = 6, SSP0_DR_out = [], PINSEL0 = 0, IO0IntEnR = 0,
          IO0IntClr = 0, IO0IntEnF = 0, NVIC_TIMER2 = False, irq_masked = False,
          ActLed = True, remainingInterrupts = 0, dummy = 0\<rparr>"

definition locals0 :: "u32 \<Rightarrow> periodic_locals" where
  "locals0 n = loop_entry_locals n"

definition overflow_cmd :: StartPeriodicInterruptsCommand where
  "overflow_cmd = \<lparr>DurationInSeconds = 2, InterruptFrequency = 0x80000000\<rparr>"

definition no_rounds :: periodic_env where
  "no_rounds = \<lparr>irqs_at_start = 0, rounds = []\<rparr>"

text \<open>
  A stand-in for \<^verbatim>\<open>crc16_update\<close> where a closed term needs one: the element count and
  the mismatch index do not depend on the checksum.
\<close>

definition no_crc :: "u32 \<Rightarrow> u8 \<Rightarrow> u32" where
  "no_crc c b = c"

text \<open>
  The scenario of the spec: 8 data bits, SendValue 0x10, ReceiveValue 0x50, and a master
  that sends 0x50, 0x99, 0x52 and then releases the chip select. The first falling edge
  is captured at counter value 5.
\<close>

definition scenario_cmd :: CaptureNextTransferCommand where
  "scenario_cmd = \<lparr>Mode = 0, DataBitLength = 8, SendValue = 0x10, ReceiveValue = 0x50\<rparr>"

definition scenario_env :: capture_env where
  "scenario_env =
     \<lparr>cs_asserts = True, uninit_capture = 0, capture_polls = [(3, \<lambda>k. 5)], tc_read = 9,
      transfer_polls = [(7, 0x50, True), (7, 0x99, True), (7, 0x52, True), (3, 0, False)],
      tcr_read = 1, cr0_read = 200\<rparr>"

text \<open>
  A transfer of 2^32 elements under one chip select, for a command that expects
  0, 1, 2, ...: the element at index 1 is 0xFF, every other one is 0.
\<close>

definition long_len :: nat where
  "long_len = 2 ^ 32 - 2"

definition long_cmd :: CaptureNextTransferCommand where
  "long_cmd = \<lparr>Mode = 0, DataBitLength = 8, SendValue = 0, ReceiveValue = 0\<rparr>"

definition long_env :: capture_env where
  "long_env =
     \<lparr>cs_asserts = True, uninit_capture = 0, capture_polls = [(3, \<lambda>k. 5)], tc_read = 9,
      transfer_polls =
        (7, 0, True) # (7, 0xFF, True) # replicate long_len (7, 0, True) @ [(3, 0, False)],
      tcr_read = 0, cr0_read = 0\<rparr>"

text \<open>
  A stand-in for \<^verbatim>\<open>Crc16\<close> where a closed term needs one, an eight-byte response
  with its checksum field at offset 2, and a master that clocks the response out.
\<close>

definition byte_sum16 :: "u8 list \<Rightarrow> u16" where
  "byte_sum16 bs = foldl (\<lambda>c b. c + ucast b) 0 bs"

definition frame0 :: "u8 list" where
  "frame0 = [8, 0, 0xAA, 0x55, 1, 2, 3, 4]"

definition send_env0 :: send_env where
  "send_env0 = \<lparr>sr_at_entry = 3, send_cs_asserts = True, send_polls = [],
                send_drained = [], send_cs_deasserts = True\<rparr>"

text \<open>
  Sessions of two interrupts (one second at 2 Hz). In \<open>late_round\<close> the master answers
  after both interrupts have fired and takes the whole reply. In \<open>cut_round\<close> it releases
  the chip select after the first reply byte, in \<open>underrun_round\<close> the transmit FIFO runs
  empty at the second poll, in \<open>wrong_round\<close> it sends a byte that is not the
  acknowledgement code, in \<open>dropped_round\<close> it releases the chip select without sending.
\<close>

definition two_cmd :: StartPeriodicInterruptsCommand where
  "two_cmd = \<lparr>DurationInSeconds = 1, InterruptFrequency = 2\<rparr>"

definition full_reply :: "(u32 \<times> bool) list" where
  "full_reply = [(2, True), (2, True), (2, True), (2, True), (2, True), (2, True), (2, True), (2, True)]"

definition late_round :: ack_round where
  "late_round = \<lparr>flush_reads = (\<lambda>k. 0), irqs_before = 2, sck_edge = True, tc_at_edge = 100,
     first_rx = RxByte 4, reply_polls = full_reply, drained = [], cs_deasserts = True,
     irqs_after = 0\<rparr>"

definition late_env :: periodic_env where
  "late_env = \<lparr>irqs_at_start = 0, rounds = [late_round]\<rparr>"

definition cut_round :: ack_round where
  "cut_round = \<lparr>flush_reads = (\<lambda>k. 0), irqs_before = 1, sck_edge = True, tc_at_edge = 100,
     first_rx = RxByte 4, reply_polls = [(2, False)], drained = [], cs_deasserts = True,
     irqs_after = 0\<rparr>"

definition underrun_round :: ack_round where
  "underrun_round = \<lparr>flush_reads = (\<lambda>k. 0), irqs_before = 1, sck_edge = True, tc_at_edge = 100,
     first_rx = RxByte 4, reply_polls = [(2, True), (3, True)], drained = [],
     cs_deasserts = True, irqs_after = 0\<rparr>"

definition wrong_round :: ack_round where
  "wrong_round = \<lparr>flush_reads = (\<lambda>k. 0), irqs_before = 0, sck_edge = True, tc_at_edge = 100,
     first_rx = RxByte 0, reply_polls = [], drained = [], cs_deasserts = True,
     irqs_after = 0\<rparr>"

definition dropped_round :: ack_round where
  "dropped_round = \<lparr>flush_reads = (\<lambda>k. 0), irqs_before = 0, sck_edge = True, tc_at_edge = 100,
     first_rx = RxCsDeasserted, reply_polls = [], drained = [], cs_deasserts = True,
     irqs_after = 0\<rparr>"

definition nack_env :: periodic_env where
  "nack_env = \<lparr>irqs_at_start = 0, rounds = [cut_round, wrong_round]\<rparr>"

definition hw_armed :: hw where
  "hw_armed = loop_entry_hw 2 no_rounds (program_timer 50000000 hw0)"

text \<open>
  \<open>last_round\<close> answers the interrupt that fires while it waits and takes the whole
  reply. \<open>cut_env\<close> and \<open>underrun_env\<close> are sessions of two interrupts whose first reply
  is disturbed and whose second round is \<open>last_round\<close>; \<open>hw_armed1\<close> is the hardware at
  the entry of the loop of a session of one interrupt (one second at 1 Hz).
\<close>

definition last_round :: ack_round where
  "last_round = \<lparr>flush_reads = (\<lambda>k. 0), irqs_before = 1, sck_edge = True, tc_at_edge = 100,
     first_rx = RxByte 4, reply_polls = full_reply, drained = [], cs_deasserts = True,
     irqs_after = 0\<rparr>"

definition cut_env :: periodic_env where
  "cut_env = \<lparr>irqs_at_start = 0, rounds = [cut_round, last_round]\<rparr>"

definition underrun_env :: periodic_env where
  "underrun_env = \<lparr>irqs_at_start = 0, rounds = [underrun_round, last_round]\<rparr>"

definition hw_armed1 :: hw where
  "hw_armed1 = loop_entry_hw 1 no_rounds (program_timer 100000000 hw0)"

section \<open>Properties\<close>

subsection \<open>WaitForCapture\<close>

text \<open>
  Once the loop body has run, the function is as its comments describe it: \<open>Success\<close>
  comes with a nonzero value read from the capture register, and otherwise the result
  is \<open>EdgeNotDetected\<close> with the counter value.
\<close>

lemma poll_CR0_result:
  "0 < n \<Longrightarrow> \<exists>j. k \<le> j \<and> j < k + n \<and> poll_CR0 n k cr0 c = cr0 j"
proof (induction n arbitrary: k c)
  case 0
  then show ?case by simp
next
  case (Suc n)
  show ?case
  proof (cases "cr0 k \<noteq> 0 \<or> n = 0")
    case True
    then show ?thesis by (intro exI [of _ k]) auto
  next
    case False
    then have "0 < n" by simp
    from Suc.IH [OF this, of "Suc k" "cr0 k"] obtain j where
      "Suc k \<le> j" "j < Suc k + n" "poll_CR0 n (Suc k) cr0 (cr0 k) = cr0 j" by blast
    with False show ?thesis by (intro exI [of _ j]) auto
  qed
qed

lemma WaitForCapture_loop_result:
  "WaitForCapture_loop c ps = Some c' \<Longrightarrow>
     c' = c \<or> (\<exists>q\<in>set ps. \<exists>j<11. snd q j = c')"
proof (induction c ps rule: WaitForCapture_loop.induct)
  case (1 capture)
  then show ?case by simp
next
  case (2 capture sr cr0 ps)
  show ?case
  proof (cases "sr AND SSP_SR_RNE \<noteq> 0")
    case True
    with "2.prems" show ?thesis by simp
  next
    case False
    from poll_CR0_result [of 11 0 cr0 capture] obtain j where
      j: "j < 11" "poll_CR0 11 0 cr0 capture = cr0 j" by auto
    show ?thesis
    proof (cases "cr0 j \<noteq> 0")
      case True
      with False j "2.prems" have "c' = cr0 j" by (simp add: Let_def)
      with j(1) show ?thesis by auto
    next
      case z: False
      with False j "2.prems" have run: "WaitForCapture_loop (cr0 j) ps = Some c'"
        by (simp add: Let_def)
      have "c' = poll_CR0 11 0 cr0 capture \<or> (\<exists>q\<in>set ps. \<exists>j<11. snd q j = c')"
        using False j z run by (intro "2.IH" [OF _ refl]) simp_all
      then have "c' = cr0 j \<or> (\<exists>q\<in>set ps. \<exists>j<11. snd q j = c')" by (simp add: j)
      with j(1) show ?thesis by auto
    qed
  qed
qed

lemma WaitForCapture_after_first_pass:
  assumes "sr AND SSP_SR_RNE = 0"
    and "WaitForCapture uninit ((sr, cr0) # ps) tc = Some (st, c)"
  shows "(st = Success \<and> c \<noteq> 0 \<and> (\<exists>q\<in>set ((sr, cr0) # ps). \<exists>j<11. snd q j = c)) \<or>
         (st = EdgeNotDetected \<and> c = tc)"
proof -
  from poll_CR0_result [of 11 0 cr0 uninit] obtain j where
    j: "j < 11" "poll_CR0 11 0 cr0 uninit = cr0 j" by auto
  show ?thesis
  proof (cases "cr0 j \<noteq> 0")
    case True
    with assms j have "st = Success \<and> c = cr0 j"
      by (simp add: WaitForCapture_def Let_def)
    with True j(1) show ?thesis by auto
  next
    case False
    with assms j obtain c' where l: "WaitForCapture_loop (cr0 j) ps = Some c'"
      and r: "(st, c) = (if c' \<noteq> 0 then (Success, c') else (EdgeNotDetected, tc))"
      by (auto simp: WaitForCapture_def Let_def split: option.splits if_splits)
    from WaitForCapture_loop_result [OF l] False
    have "c' = 0 \<or> (\<exists>q\<in>set ps. \<exists>j<11. snd q j = c')" by auto
    with r show ?thesis by (auto split: if_splits)
  qed
qed

text \<open>
  C10. \<^verbatim>\<open>WaitForCapture\<close> treats a capture value of 0 as "no capture yet". When the
  receive FIFO already holds a byte at the first evaluation of the loop condition, the
  loop body never runs and \<^verbatim>\<open>capture\<close> is read without ever having been assigned: with
  a nonzero value in its stack slot the function reports \<open>Success\<close> and that value,
  although no capture value was read and the capture register reads 0.
\<close>

theorem WaitForCapture_unassigned_capture:
  "WaitForCapture 0xDEADBEEF [(SSP_SR_RNE, \<lambda>k. 0)] 7 = Some (Success, 0xDEADBEEF)"
  by (simp add: WaitForCapture_def SSP_SR_RNE_def)

subsection \<open>The acknowledgement block\<close>

text \<open>
  C1. In an acknowledgement round, let \<open>difference\<close> be
  \<^verbatim>\<open>lastAckedInterruptCount - remainingInterrupts\<close> and \<open>capture\<close> the counter value
  taken at the falling edge of SCK. When the difference is not negative the block
  produces a reply: for a difference of 1 its \<open>TimeSinceFallingEdge\<close> is \<open>capture\<close>;
  for a difference above 1 it is \<open>(difference - 1) * period + capture\<close> (in 32-bit
  arithmetic, as the code computes it); for a difference of 0 the round counts as
  already acknowledged and the field is the reserved invalid value; and afterwards
  \<^verbatim>\<open>lastAckedInterruptCount\<close> is smaller by exactly \<open>difference\<close>.
\<close>

theorem acknowledge_latency:
  assumes "difference = lastAckedInterruptCount l - remaining" and "0 \<le> sint difference"
  shows "\<exists>a l'. acknowledge K period capture remaining l = Inr (a, l') \<and>
           (difference = 1 \<longrightarrow> TimeSinceFallingEdge a = capture) \<and>
           (1 < sint difference \<longrightarrow>
              TimeSinceFallingEdge a = (difference - 1) * period + capture) \<and>
           (difference = 0 \<longrightarrow>
              TimeSinceFallingEdge a = INVALID_TIME_SINCE_FALLING_EDGE K \<and>
              alreadyAckedCount l' = alreadyAckedCount l + 1 \<and>
              ackedBeforeDeadlineCount l' = ackedBeforeDeadlineCount l \<and>
              ackedPastDeadlineCount l' = ackedPastDeadlineCount l) \<and>
           lastAckedInterruptCount l' = lastAckedInterruptCount l - difference"
proof -
  have n: "\<not> sint (lastAckedInterruptCount l - remaining) < 0"
    using assms by simp
  show ?thesis
    unfolding acknowledge_def Let_def assms(1) [symmetric] using n assms(1)
    by (auto simp: diff_eq_eq)
qed

theorem acknowledge_latency_witness:
  "(\<exists>a l'. acknowledge K0 1000 5 9 (locals0 10) = Inr (a, l') \<and>
       TimeSinceFallingEdge a = 5 \<and> lastAckedInterruptCount l' = 9) \<and>
   (\<exists>a l'. acknowledge K0 1000 5 7 (locals0 10) = Inr (a, l') \<and>
       TimeSinceFallingEdge a = 2005 \<and> lastAckedInterruptCount l' = 7) \<and>
   (\<exists>a l'. acknowledge K0 1000 5 10 (locals0 10) = Inr (a, l') \<and>
       TimeSinceFallingEdge a = 0xFFFFFFFF \<and> alreadyAckedCount l' = 1 \<and>
       lastAckedInterruptCount l' = 10)"
  using acknowledge_latency [of 1 "locals0 10" 9 K0 1000 5]
    acknowledge_latency [of 3 "locals0 10" 7 K0 1000 5]
    acknowledge_latency [of 0 "locals0 10" 10 K0 1000 5]
  by (auto simp: locals0_def loop_entry_locals_def K0_def)

subsection \<open>The overflow of the interrupt count\<close>

text \<open>
  C6. When DurationInSeconds \<times> InterruptFrequency does not fit the 32-bit interrupt
  count, \<^verbatim>\<open>RunPeriodicInterrupts\<close> returns with \<open>ArithmeticOverflow\<close> set and generates
  no interrupt: \<^verbatim>\<open>remainingInterrupts\<close> is not assigned, the timer interrupt is not
  enabled at the controller, the timer is left in reset and not started, and the
  interrupt output is not muxed.
\<close>

theorem overflow_generates_no_interrupts:
  assumes "2 ^ 32 \<le> unat (DurationInSeconds cmd) * unat (InterruptFrequency cmd)"
  shows "\<exists>i h'. RunPeriodicInterrupts K clockFreq cmd env h = Inr (i, h') \<and>
           ArithmeticOverflow (Status i) \<and>
           remainingInterrupts h' = remainingInterrupts h \<and>
           NVIC_TIMER2 h' = NVIC_TIMER2 h \<and>
           TIM2_TCR h' = TIM_TCR_RESET \<and> TIM2_TCR h' \<noteq> TIM_TCR_ENABLE \<and>
           PINSEL0 h' = PINSEL0 h \<and> SSP0_DR_out h' = SSP0_DR_out h"
proof -
  have f: "InterruptFrequency cmd \<noteq> 0"
    using assms by (auto simp: unat_eq_0)
  have c: "ComputeInterruptCount cmd = None"
    using assms by (simp add: ComputeInterruptCount_def Let_def)
  show ?thesis
    using f c
    by (simp add: RunPeriodicInterrupts_def Let_def program_timer_def
        set_ArithmeticOverflow_def TIM_TCR_RESET_def TIM_TCR_ENABLE_def)
qed

theorem overflow_generates_no_interrupts_witness:
  "\<exists>i h'. RunPeriodicInterrupts K0 100000000 overflow_cmd no_rounds hw0 = Inr (i, h') \<and>
      ArithmeticOverflow (Status i) \<and> remainingInterrupts h' = 0 \<and> \<not> NVIC_TIMER2 h' \<and>
      TIM2_TCR h' = 2 \<and> PINSEL0 h' = 0 \<and> SSP0_DR_out h' = []"
  using overflow_generates_no_interrupts [of overflow_cmd K0 100000000 no_rounds hw0]
  by (auto simp: overflow_cmd_def hw0_def TIM_TCR_RESET_def)

subsection \<open>CaptureTransfer\<close>

lemma refill_fields [simp]:
  "rxValue (refill m st s) = rxValue s"
  "mismatchDetected (refill m st s) = mismatchDetected s"
  "transferInfo (refill m st s) = transferInfo s"
  "checksum (refill m st s) = checksum s"
  by (simp_all add: refill_def send_next_def)

lemma receive_element_fields:
  "rxValue (receive_element crc m sv d s) = rxValue s + 1"
  "mismatchDetected (receive_element crc m sv d s) =
     (mismatchDetected s \<or> d \<noteq> (rxValue s AND m))"
  "MismatchIndex (transferInfo (receive_element crc m sv d s)) =
     (if d \<noteq> (rxValue s AND m) \<and> \<not> mismatchDetected s then rxValue s - sv
      else MismatchIndex (transferInfo s))"
  "ClockActiveTimeStatus (transferInfo (receive_element crc m sv d s)) =
     ClockActiveTimeStatus (transferInfo s)"
  by (auto simp: receive_element_def Let_def)

lemma loop_detected:
  "CaptureTransfer_loop crc m sv ps s = Some s' \<Longrightarrow> mismatchDetected s \<Longrightarrow>
     rxValue s' = rxValue s + of_nat (length (received ps)) \<and> mismatchDetected s' \<and>
     MismatchIndex (transferInfo s') = MismatchIndex (transferInfo s)"
proof (induction crc m sv ps s rule: CaptureTransfer_loop.induct)
  case (1 crc m sv s)
  then show ?case by simp
next
  case (2 crc m sv status data cs ps s)
  then show ?case
    by (auto simp: receive_element_fields split: if_splits)
qed

lemma loop_char:
  "CaptureTransfer_loop crc m sv ps s = Some s' \<Longrightarrow> \<not> mismatchDetected s \<Longrightarrow>
     rxValue s' = rxValue s + of_nat (length (received ps)) \<and>
     (case first_mismatch m (rxValue s) (received ps) of
        None \<Rightarrow> \<not> mismatchDetected s'
      | Some j \<Rightarrow> mismatchDetected s' \<and>
          MismatchIndex (transferInfo s') = rxValue s + of_nat j - sv)"
proof (induction crc m sv ps s rule: CaptureTransfer_loop.induct)
  case (1 crc m sv s)
  then show ?case by simp
next
  case (2 crc m sv status data cs ps s)
  show ?case
  proof (cases "status AND SSP_SR_RNE \<noteq> 0")
    case rne: True
    let ?s1 = "refill m status (receive_element crc m sv data s)"
    have run: "CaptureTransfer_loop crc m sv ps ?s1 = Some s'"
      using "2.prems"(1) rne by simp
    show ?thesis
    proof (cases "data \<noteq> (rxValue s AND m)")
      case True
      have "mismatchDetected ?s1" using True by (simp add: receive_element_fields)
      from loop_detected [OF run this] True rne "2.prems"(2) show ?thesis
        by (simp add: receive_element_fields)
    next
      case False
      have nd: "\<not> mismatchDetected ?s1"
        using False "2.prems"(2) by (simp add: receive_element_fields)
      from "2.IH"(1) [OF rne run nd] False rne show ?thesis
        by (auto simp: receive_element_fields split: option.splits)
    qed
  next
    case False
    with 2 show ?thesis by (auto split: if_splits option.splits)
  qed
qed

lemma first_mismatch_None:
  "first_mismatch m v ds = None \<longleftrightarrow> (\<forall>k<length ds. ds ! k = (v + of_nat k) AND m)"
proof (induction ds arbitrary: v)
  case Nil
  then show ?case by simp
next
  case (Cons d ds)
  show ?case
    by (auto simp: Cons.IH less_Suc_eq_0_disj add.assoc)
qed

lemma first_mismatch_Some:
  "first_mismatch m v ds = Some j \<longleftrightarrow>
     (j < length ds \<and> ds ! j \<noteq> (v + of_nat j) AND m \<and> (\<forall>k<j. ds ! k = (v + of_nat k) AND m))"
proof (induction ds arbitrary: v j)
  case Nil
  then show ?case by simp
next
  case (Cons d ds)
  show ?case
  proof (cases j)
    case 0
    then show ?thesis by auto
  next
    case (Suc i)
    then show ?thesis
      by (auto simp: Cons.IH less_Suc_eq_0_disj add.assoc)
  qed
qed


lemma finish_counts:
  "CaptureTransfer_finish cmd env c1 s = (ti, h') \<Longrightarrow>
     ElementCount ti = rxValue s - SendValue cmd \<and>
     MismatchIndex ti = (if mismatchDetected s then MismatchIndex (transferInfo s)
                         else rxValue s - SendValue cmd)"
  by (auto simp: CaptureTransfer_finish_def Let_def split: if_splits)

lemma initial_fill_fields [simp]:
  "rxValue (initial_fill n m s) = rxValue s"
  "mismatchDetected (initial_fill n m s) = mismatchDetected s"
  "transferInfo (initial_fill n m s) = transferInfo s"
  by (induction n m s rule: initial_fill.induct) (simp_all add: send_next_def)

lemma CaptureTransfer_counts:
  assumes "CaptureTransfer crc cmd env h = Some (ti, h')"
  shows "ElementCount ti = of_nat (length (received (transfer_polls env))) \<and>
         MismatchIndex ti =
           (case first_mismatch (dataMask_of (DataBitLength cmd)) (SendValue cmd)
                   (received (transfer_polls env)) of
              None \<Rightarrow> of_nat (length (received (transfer_polls env)))
            | Some j \<Rightarrow> of_nat j)"
  using assms unfolding CaptureTransfer_def Let_def
  apply (clarsimp split: if_splits option.splits prod.splits)
  apply (drule loop_char)
   apply simp
  apply (drule finish_counts)
  apply (auto split: option.splits)
  done

lemma loop_returns:
  "st AND SSP_SR_RNE = 0 \<Longrightarrow>
     \<exists>s'. CaptureTransfer_loop crc m sv (ps @ [(st, d, False)]) s = Some s'"
proof (induction ps arbitrary: s)
  case Nil
  then show ?case by simp
next
  case (Cons p ps)
  obtain a b c where p: "p = (a, b, c)" by (cases p)
  show ?case using Cons by (simp add: p)
qed

lemma CaptureTransfer_returns:
  assumes "cs_asserts env"
    and "WaitForCapture (uninit_capture env) (capture_polls env) (tc_read env) \<noteq> None"
    and "transfer_polls env = ps @ [(st, d, False)]" and "st AND SSP_SR_RNE = 0"
  shows "\<exists>ti h'. CaptureTransfer crc cmd env h = Some (ti, h')"
proof -
  obtain cst c1 where w: "WaitForCapture (uninit_capture env) (capture_polls env) (tc_read env) = Some (cst, c1)"
    using assms(2) by auto
  let ?m = "dataMask_of (DataBitLength cmd)"
  define s0 where "s0 = (let h1 = SspSetDataMode (Mode cmd) (DataBitLength cmd) h;
          h1 = h1\<lparr>TIM2_TCR := TIM_TCR_RESET\<rparr>;
          h1 = h1\<lparr>TIM2_MCR := TIM_MCR_STOP_ON_MATCH TIM_MATCH_CHANNEL_0\<rparr>;
          h1 = h1\<lparr>TIM2_MR0 := 0xffffffff\<rparr>;
          h1 = h1\<lparr>TIM2_CCR := TIM_CCR_FALLING TIM_CAPTURE_CHANNEL_0\<rparr>;
          h1 = h1\<lparr>irq_masked := True\<rparr>;
          s = \<lparr>checksum = 0, rxValue = SendValue cmd, txValue = ReceiveValue cmd,
               mismatchDetected = False, transferInfo = TransferInfo_init, cap_hw = h1\<rparr>;
          s = initial_fill 8 ?m s;
          s = s\<lparr>cap_hw := (cap_hw s)\<lparr>TIM2_TCR := TIM_TCR_ENABLE\<rparr>\<rparr>
       in s\<lparr>transferInfo := (transferInfo s)\<lparr>ClockActiveTimeStatus := cst\<rparr>\<rparr>)"
  obtain s' where l: "CaptureTransfer_loop crc ?m (SendValue cmd) (transfer_polls env) s0 = Some s'"
    using loop_returns [OF assms(4), of crc ?m "SendValue cmd" ps d s0] assms(3) by auto
  have "CaptureTransfer crc cmd env h = Some (CaptureTransfer_finish cmd env c1 s')"
    unfolding CaptureTransfer_def using assms(1) w l
    by (simp add: Let_def s0_def)
  then show ?thesis by (cases "CaptureTransfer_finish cmd env c1 s'") auto
qed

lemma received_replicate:
  "st AND SSP_SR_RNE \<noteq> 0 \<Longrightarrow> received (replicate n (st, d, c) @ ps) = replicate n d @ received ps"
  by (induction n) simp_all

lemma scenario_received: "received (transfer_polls scenario_env) = [0x50, 0x99, 0x52]"
  by (simp add: scenario_env_def SSP_SR_RNE_def)

lemma poll_CR0_hit: "cr0 k \<noteq> 0 \<Longrightarrow> 0 < n \<Longrightarrow> poll_CR0 n k cr0 c = cr0 k"
  by (cases n) auto

lemma scenario_wait: "WaitForCapture (uninit_capture scenario_env) (capture_polls scenario_env) (tc_read scenario_env) = Some (Success, 5)"
  by (simp add: scenario_env_def SSP_SR_RNE_def WaitForCapture_def poll_CR0_hit)

text \<open>
  C5 (as amended). For a transfer of fewer than 2^32 elements the returned
  \<open>TransferInfo\<close> has \<open>MismatchIndex \<le> ElementCount\<close>, \<open>ElementCount\<close> is the number
  of elements received, \<open>MismatchIndex = ElementCount\<close> exactly when every element
  equals the value expected at its index, and otherwise \<open>MismatchIndex\<close> is the index
  of the first element that differs: later mismatches do not change it.
\<close>

theorem mismatch_index_bounded:
  assumes "CaptureTransfer crc cmd env h = Some (ti, h')"
    and "ds = received (transfer_polls env)" and "length ds < 2 ^ 32"
    and "m = dataMask_of (DataBitLength cmd)"
  shows "MismatchIndex ti \<le> ElementCount ti \<and> unat (ElementCount ti) = length ds \<and>
         ((MismatchIndex ti = ElementCount ti) =
            (\<forall>k<length ds. ds ! k = (SendValue cmd + of_nat k) AND m)) \<and>
         (\<forall>j<length ds. ds ! j \<noteq> (SendValue cmd + of_nat j) AND m \<and>
              (\<forall>k<j. ds ! k = (SendValue cmd + of_nat k) AND m)
            \<longrightarrow> unat (MismatchIndex ti) = j)"
proof -
  note c = CaptureTransfer_counts [OF assms(1), folded assms(2) assms(4)]
  have len: "unat (of_nat (length ds) :: u32) = length ds"
    using assms(3) by (simp add: unat_of_nat)
  have ue: "unat (ElementCount ti) = length ds" using c len by simp
  show ?thesis
  proof (cases "first_mismatch m (SendValue cmd) ds")
    case None
    with c have e: "MismatchIndex ti = ElementCount ti" by simp
    from None have all: "\<forall>k<length ds. ds ! k = (SendValue cmd + of_nat k) AND m"
      by (simp add: first_mismatch_None)
    have 1: "MismatchIndex ti \<le> ElementCount ti" using e by simp
    have 3: "(MismatchIndex ti = ElementCount ti) =
            (\<forall>k<length ds. ds ! k = (SendValue cmd + of_nat k) AND m)"
      using e all by blast
    have 4: "\<forall>j<length ds. ds ! j \<noteq> (SendValue cmd + of_nat j) AND m \<and>
              (\<forall>k<j. ds ! k = (SendValue cmd + of_nat k) AND m)
            \<longrightarrow> unat (MismatchIndex ti) = j"
      using all by blast
    show ?thesis using 1 ue 3 4 by blast
  next
    case (Some j)
    then have j: "j < length ds" "ds ! j \<noteq> (SendValue cmd + of_nat j) AND m"
      "\<forall>k<j. ds ! k = (SendValue cmd + of_nat k) AND m"
      by (simp_all add: first_mismatch_Some)
    from Some c have mi: "MismatchIndex ti = of_nat j" by simp
    have uj: "unat (MismatchIndex ti) = j"
      using j(1) assms(3) by (simp add: mi unat_of_nat)
    have 1: "MismatchIndex ti \<le> ElementCount ti"
      using uj ue j(1) by (simp add: word_le_nat_alt)
    have ne: "MismatchIndex ti \<noteq> ElementCount ti"
      using uj ue j(1) by auto
    have 3: "(MismatchIndex ti = ElementCount ti) =
            (\<forall>k<length ds. ds ! k = (SendValue cmd + of_nat k) AND m)"
      using ne j(1) j(2) by blast
    have uniq: "i = j" if "i < length ds" "ds ! i \<noteq> (SendValue cmd + of_nat i) AND m"
        "\<forall>k<i. ds ! k = (SendValue cmd + of_nat k) AND m" for i
    proof (rule ccontr)
      assume "i \<noteq> j"
      then consider "i < j" | "j < i" by linarith
      then show False using that j by cases blast+
    qed
    have 4: "\<forall>j<length ds. ds ! j \<noteq> (SendValue cmd + of_nat j) AND m \<and>
              (\<forall>k<j. ds ! k = (SendValue cmd + of_nat k) AND m)
            \<longrightarrow> unat (MismatchIndex ti) = j"
      using uniq uj by blast
    show ?thesis using 1 ue 3 4 by blast
  qed
qed

lemma long_received: "received (transfer_polls long_env) = 0 # 0xFF # replicate long_len 0"
  by (simp add: long_env_def SSP_SR_RNE_def received_replicate)

lemma long_first: "first_mismatch (dataMask_of 8) 0 (0 # 0xFF # replicate long_len 0) = Some 1"
  by (simp add: dataMask_of_def)

lemma long_count: "(of_nat (length (0 # 0xFF # replicate long_len (0::u32))) :: u32) = 0"
proof -
  have e: "length (0 # 0xFF # replicate long_len (0::u32)) = 2 ^ 32"
    by (simp add: long_len_def)
  show ?thesis unfolding e by simp
qed

lemma long_wait: "WaitForCapture (uninit_capture long_env) (capture_polls long_env) (tc_read long_env) = Some (Success, 5)"
  by (simp add: long_env_def SSP_SR_RNE_def WaitForCapture_def poll_CR0_hit)

text \<open>
  C5 as stated fails for a transfer of 2^32 elements whose element at index 1 is wrong:
  the 32-bit element count wraps to 0 while the mismatch index is 1.
\<close>

theorem mismatch_index_exceeds_wrapped_count:
  "CaptureTransfer no_crc long_cmd long_env hw0 \<noteq> None \<and>
   \<not> MismatchIndex (fst (the (CaptureTransfer no_crc long_cmd long_env hw0)))
       \<le> ElementCount (fst (the (CaptureTransfer no_crc long_cmd long_env hw0)))"
proof -
  have "transfer_polls long_env =
      ((7, 0, True) # (7, 0xFF, True) # replicate long_len (7, 0, True)) @ [(3, 0, False)]"
    by (simp add: long_env_def)
  moreover have "cs_asserts long_env" by (simp add: long_env_def)
  moreover have "(3::u32) AND SSP_SR_RNE = 0" by (simp add: SSP_SR_RNE_def)
  moreover have "WaitForCapture (uninit_capture long_env) (capture_polls long_env)
      (tc_read long_env) \<noteq> None" by (simp add: long_wait)
  ultimately obtain ti h' where r: "CaptureTransfer no_crc long_cmd long_env hw0 = Some (ti, h')"
    using CaptureTransfer_returns [of long_env _ 3 0 no_crc long_cmd hw0] by blast
  have d: "DataBitLength long_cmd = 8" "SendValue long_cmd = 0" by (simp_all add: long_cmd_def)
  from CaptureTransfer_counts [OF r]
  have "ElementCount ti = 0" "MismatchIndex ti = 1"
    unfolding long_received d long_first long_count by simp_all
  then show ?thesis by (simp add: r)
qed

text \<open>
  C4 (as amended). In the scenario (8 data bits, SendValue 0x10, ReceiveValue 0x50, the
  master sends 0x50, 0x99, 0x52) the tester expects 0x10, 0x11, 0x12 from the master,
  since \<^verbatim>\<open>rxValue\<close> starts at SendValue: the first element already differs, so
  \<open>MismatchIndex\<close> is 0, and \<open>ElementCount\<close> is 3.
\<close>

theorem scenario_mismatch_index:
  assumes "CaptureTransfer crc cmd env h = Some (ti, h')"
    and "DataBitLength cmd = 8" and "SendValue cmd = 0x10" and "ReceiveValue cmd = 0x50"
    and "received (transfer_polls env) = [0x50, 0x99, 0x52]"
  shows "MismatchIndex ti = 0 \<and> ElementCount ti = 3"
  using CaptureTransfer_counts [OF assms(1)]
  by (simp add: assms dataMask_of_def)

lemma scenario_returns:
  "\<exists>ti h'. CaptureTransfer no_crc scenario_cmd scenario_env hw0 = Some (ti, h')"
proof -
  have "transfer_polls scenario_env =
      [(7, 0x50, True), (7, 0x99, True), (7, 0x52, True)] @ [(3, 0, False)]"
    by (simp add: scenario_env_def)
  moreover have "cs_asserts scenario_env" by (simp add: scenario_env_def)
  moreover have "(3::u32) AND SSP_SR_RNE = 0" by (simp add: SSP_SR_RNE_def)
  moreover have "WaitForCapture (uninit_capture scenario_env) (capture_polls scenario_env)
      (tc_read scenario_env) \<noteq> None" by (simp add: scenario_wait)
  ultimately show ?thesis
    using CaptureTransfer_returns [of scenario_env _ 3 0 no_crc scenario_cmd hw0] by blast
qed

theorem scenario_mismatch_index_witness:
  "\<exists>ti h'. CaptureTransfer no_crc scenario_cmd scenario_env hw0 = Some (ti, h') \<and>
     MismatchIndex ti = 0 \<and> ElementCount ti = 3"
proof -
  from scenario_returns obtain ti h' where
    r: "CaptureTransfer no_crc scenario_cmd scenario_env hw0 = Some (ti, h')" by blast
  from scenario_mismatch_index [OF r _ _ _ scenario_received] have "MismatchIndex ti = 0 \<and> ElementCount ti = 3"
    by (simp add: scenario_cmd_def)
  with r show ?thesis by blast
qed

text \<open>C4 as stated fails: in the scenario the mismatch index is not 1.\<close>

theorem scenario_mismatch_index_not_one:
  "CaptureTransfer no_crc scenario_cmd scenario_env hw0 \<noteq> None \<and>
   MismatchIndex (fst (the (CaptureTransfer no_crc scenario_cmd scenario_env hw0))) \<noteq> 1"
proof -
  from scenario_returns obtain ti h' where
    r: "CaptureTransfer no_crc scenario_cmd scenario_env hw0 = Some (ti, h')" by blast
  from CaptureTransfer_counts [OF r] have "MismatchIndex ti = 0"
    by (simp add: scenario_received scenario_cmd_def dataMask_of_def)
  with r show ?thesis by simp
qed

theorem mismatch_index_bounded_witness:
  "\<exists>ti h'. CaptureTransfer no_crc scenario_cmd scenario_env hw0 = Some (ti, h') \<and>
     MismatchIndex ti \<le> ElementCount ti \<and> unat (ElementCount ti) = 3 \<and>
     MismatchIndex ti \<noteq> ElementCount ti \<and> unat (MismatchIndex ti) = 0"
proof -
  from scenario_returns obtain ti h' where
    r: "CaptureTransfer no_crc scenario_cmd scenario_env hw0 = Some (ti, h')" by blast
  have l: "length [0x50, 0x99, 0x52 :: u32] < 2 ^ 32" by simp
  let ?ds = "[0x50, 0x99, 0x52 :: u32]"
  let ?m = "dataMask_of (DataBitLength scenario_cmd)"
  from mismatch_index_bounded [OF r scenario_received [symmetric] l refl]
  have a: "MismatchIndex ti \<le> ElementCount ti" and b: "unat (ElementCount ti) = length ?ds"
    and c: "(MismatchIndex ti = ElementCount ti) =
       (\<forall>k<length ?ds. ?ds ! k = (SendValue scenario_cmd + of_nat k) AND ?m)"
    and d: "\<forall>j<length ?ds. ?ds ! j \<noteq> (SendValue scenario_cmd + of_nat j) AND ?m \<and>
       (\<forall>k<j. ?ds ! k = (SendValue scenario_cmd + of_nat k) AND ?m)
       \<longrightarrow> unat (MismatchIndex ti) = j"
    by blast+
  have m0: "?ds ! 0 \<noteq> (SendValue scenario_cmd + of_nat 0) AND ?m"
    by (simp add: scenario_cmd_def dataMask_of_def)
  have "\<not> (\<forall>k<length ?ds. ?ds ! k = (SendValue scenario_cmd + of_nat k) AND ?m)"
    using m0 by (metis length_greater_0_conv list.distinct(1))
  with c have ne: "MismatchIndex ti \<noteq> ElementCount ti" by simp
  from d [rule_format, of 0] m0 have z: "unat (MismatchIndex ti) = 0" by simp
  from r a b ne z show ?thesis by simp
qed

subsection \<open>The response checksum\<close>

lemma u16_split: "(ucast (ucast c :: u8) :: u16) OR push_bit 8 (ucast (ucast (drop_bit 8 c) :: u8)) = c"
  by (rule bit_word_eqI) (auto simp: bit_simps)

lemma load_store_Checksum:
  "Suc cko < length mem \<Longrightarrow> load_Checksum cko (store_Checksum cko c mem) = c"
  by (simp add: load_Checksum_def store_Checksum_def u16_split)

lemma store_store_Checksum:
  "store_Checksum cko c (store_Checksum cko d mem) = store_Checksum cko c mem"
  by (simp add: store_Checksum_def list_update_swap [of cko "Suc cko"])

lemma take_store_Checksum:
  "Suc cko < len \<Longrightarrow> take len (store_Checksum cko c mem) = store_Checksum cko c (take len mem)"
  by (simp add: store_Checksum_def take_update_swap)

lemma load_take_Checksum:
  "Suc cko < len \<Longrightarrow> load_Checksum cko (take len mem) = load_Checksum cko mem"
  by (simp add: load_Checksum_def)

lemma checksum_zeroed:
  assumes "Suc cko < len"
  shows "store_Checksum cko 0 (take len (SspSendImpl_checksum crc16 cko len mem)) =
         take len (store_Checksum cko 0 mem)"
  using assms
  by (simp add: SspSendImpl_checksum_def Let_def take_store_Checksum store_store_Checksum)

lemma checksum_stored:
  assumes "Suc cko < len" "len \<le> length mem"
  shows "load_Checksum cko (SspSendImpl_checksum crc16 cko len mem) =
         crc16 (store_Checksum cko 0 (take len (SspSendImpl_checksum crc16 cko len mem)))"
proof -
  have l: "Suc cko < length (store_Checksum cko 0 mem)"
    using assms by (simp add: store_Checksum_def)
  show ?thesis
    unfolding checksum_zeroed [OF assms(1)] using l
    by (simp add: SspSendImpl_checksum_def Let_def load_store_Checksum)
qed

lemma preload_out: "SSP0_DR_out (preload bs h) = SSP0_DR_out h @ map ucast bs"
  by (induction bs h rule: preload.induct) (simp_all add: write_DR_def)

lemma send_rest_out:
  "send_rest bs ps h = Some (fin, h') \<Longrightarrow>
     \<exists>k\<le>length bs. SSP0_DR_out h' = SSP0_DR_out h @ map ucast (take k bs) \<and>
        (fin \<longrightarrow> k = length bs)"
proof (induction bs ps h rule: send_rest.induct)
  case (1 ps h)
  then show ?case by auto
next
  case (2 b bs h)
  then show ?case by simp
next
  case (3 b bs status cs ps h)
  show ?case
  proof (cases "status AND SSP_SR_TNF \<noteq> 0")
    case tnf: True
    show ?thesis
    proof (cases cs)
      case True
      with tnf 3 obtain k where k: "k \<le> length bs"
        "SSP0_DR_out h' = SSP0_DR_out (write_DR (ucast b) h) @ map ucast (take k bs)"
        "fin \<longrightarrow> k = length bs" by auto
      then show ?thesis
        by (intro exI [of _ "Suc k"]) (simp add: write_DR_def)
    next
      case False
      with tnf 3 show ?thesis
        by (auto simp: write_DR_def intro!: exI [of _ 1])
    qed
  next
    case False
    with 3 show ?thesis
      by (auto split: if_splits intro!: exI [of _ 0])
  qed
qed

lemma WaitForCsToDeassert_out:
  "WaitForCsToDeassert reads ends h = Some h' \<Longrightarrow> SSP0_DR_out h' = SSP0_DR_out h"
proof -
  have "SSP0_DR_out (foldl (\<lambda>h v. h\<lparr>dummy := v\<rparr>) h reads) = SSP0_DR_out h"
    by (induction reads arbitrary: h) simp_all
  then show "WaitForCsToDeassert reads ends h = Some h' \<Longrightarrow> SSP0_DR_out h' = SSP0_DR_out h"
    by (auto simp: WaitForCsToDeassert_def split: if_splits)
qed

lemma frame_prefix:
  assumes "k \<le> length (drop a (take len mem))"
  shows "take a mem @ take k (drop a (take len mem)) = take (a + k) mem"
proof -
  have "k \<le> len - a" using assms by simp
  then have "take k (drop a (take len mem)) = take k (drop a mem)"
    by (simp add: drop_take min_absorb1)
  then show ?thesis by (simp add: take_add)
qed

text \<open>
  C9. When \<^verbatim>\<open>Header.Length\<close> is the length of the response and the checksum field lies
  within it, the frame \<^verbatim>\<open>SspSendImpl\<close> prepares carries in its checksum field the CRC-16
  of the frame with that field zeroed, which is the frame as it was handed in with the
  field zeroed; so zeroing the field of the transmitted bytes and running the CRC-16
  again gives the transmitted checksum. The bytes written to the transmit FIFO are the
  leading bytes of that frame.
\<close>

theorem response_checksum_roundtrip:
  assumes "cko + 2 \<le> len" and "len \<le> length mem"
    and "SspSendImpl crc16 cko len env mem h = Some (mem', h')"
  shows "load_Checksum cko (take len mem') = crc16 (store_Checksum cko 0 (take len mem')) \<and>
         store_Checksum cko 0 (take len mem') = take len (store_Checksum cko 0 mem) \<and>
         (\<exists>n\<le>len. SSP0_DR_out h' = SSP0_DR_out h @ map ucast (take n mem'))"
proof -
  have c: "Suc cko < len" using assms(1) by simp
  have m: "mem' = SspSendImpl_checksum crc16 cko len mem"
    using assms(3)
    by (auto simp: SspSendImpl_def Let_def split: if_splits option.splits bool.splits prod.splits)
  have 1: "load_Checksum cko (take len mem') = crc16 (store_Checksum cko 0 (take len mem'))"
    unfolding load_take_Checksum [OF c] m by (rule checksum_stored [OF c assms(2)])
  have 2: "store_Checksum cko 0 (take len mem') = take len (store_Checksum cko 0 mem)"
    unfolding m by (rule checksum_zeroed [OF c])
  have 3: "\<exists>n\<le>len. SSP0_DR_out h' = SSP0_DR_out h @ map ucast (take n mem')"
  proof (cases "sr_at_entry env AND SSP_SR_TFE = 0")
    case True
    with assms(3) have "h' = h" by (simp add: SspSendImpl_def Let_def)
    then show ?thesis by (intro exI [of _ 0]) simp
  next
    case False
    let ?h1 = "(preload (take (min len 8) mem') h)\<lparr>irq_masked := True\<rparr>"
    from False assms(3) obtain fin h2 where
      sr: "send_rest (drop (min len 8) (take len mem')) (send_polls env) ?h1 = Some (fin, h2)"
      and out: "SSP0_DR_out h' = SSP0_DR_out h2"
      unfolding SspSendImpl_def Let_def m [symmetric]
      by (auto split: if_splits option.splits bool.splits prod.splits
          dest: WaitForCsToDeassert_out)
    from send_rest_out [OF sr] obtain k where
      k: "k \<le> length (drop (min len 8) (take len mem'))"
      "SSP0_DR_out h2 = SSP0_DR_out ?h1 @ map ucast (take k (drop (min len 8) (take len mem')))"
      by blast
    have "SSP0_DR_out h' = SSP0_DR_out h @ map ucast (take (min len 8 + k) mem')"
      using k(2) frame_prefix [OF k(1)] by (simp add: out preload_out flip: map_append)
    moreover have "min len 8 + k \<le> len" using k(1) by auto
    ultimately show ?thesis by blast
  qed
  from 1 2 3 show ?thesis by blast
qed

theorem response_checksum_roundtrip_witness:
  "\<exists>mem' h'. SspSendImpl byte_sum16 2 8 send_env0 frame0 hw0 = Some (mem', h') \<and>
     load_Checksum 2 (take 8 mem') = byte_sum16 (store_Checksum 2 0 (take 8 mem')) \<and>
     store_Checksum 2 0 (take 8 mem') = take 8 (store_Checksum 2 0 frame0)"
proof -
  have r: "SspSendImpl byte_sum16 2 8 send_env0 frame0 hw0 =
      Some (SspSendImpl_checksum byte_sum16 2 8 frame0,
            foldl (\<lambda>h v. h\<lparr>dummy := v\<rparr>)
              ((preload (take 8 (SspSendImpl_checksum byte_sum16 2 8 frame0)) hw0)
                 \<lparr>irq_masked := True, irq_masked := False\<rparr>) [])"
    by (simp add: SspSendImpl_def Let_def send_env0_def SSP_SR_TFE_def WaitForCsToDeassert_def)
  have a: "2 + 2 \<le> (8::nat)" and b: "8 \<le> length frame0" by (simp_all add: frame0_def)
  from response_checksum_roundtrip [OF a b r] r show ?thesis by blast
qed


subsection \<open>The periodic interrupt session\<close>

lemma flush_fifo_numeral [simp]:
  "flush_fifo (numeral v) k rd h =
     flush_fifo (pred_numeral v) (Suc k) rd ((write_DR 0 h)\<lparr>dummy := rd k\<rparr>)"
  by (simp add: numeral_eq_Suc)

lemma deliver_irqs_numeral [simp]:
  "deliver_irqs (numeral v) h =
     deliver_irqs (pred_numeral v) (if irq_deliverable h then TIMER2_IRQHandler h else h)"
  by (simp add: numeral_eq_Suc)

lemmas hw_consts = SSP_SR_TFE_def SSP_SR_TNF_def SSP_SR_RNE_def TIM_TCR_ENABLE_def
  TIM_TCR_RESET_def TIM_IR_MASK_def TIM_MATCH_CHANNEL_0_def TIM_MCR_INT_ON_MATCH_def
  TIM_MCR_RESET_ON_MATCH_def TIM_EMR_LOW_ON_MATCH_def

lemmas periodic_defs = RunPeriodicInterrupts_def ComputeInterruptCount_def program_timer_def
  loop_entry_locals_def loop_entry_hw_def start_interrupts_def MuxInterruptOutput_def
  EnableSckFallingEdgeDetection_def ack_round_body_def acknowledge_def irq_deliverable_def
  TIMER2_IRQHandler_def WaitForCsToDeassert_def finally_teardown_def report_def
  DisableSckFallingEdgeDetection_def DemuxInterruptOutput_def write_DR_def
  PeriodicInterruptInfo_init_def set_ArithmeticOverflow_def set_NotAcknowledged_def
  set_IncompleteReceive_def set_IncompleteTransmit_def set_TransmitUnderrun_def
  ackInfo_bytes_def u32_bytes_def

lemmas set_flag_defs = set_ArithmeticOverflow_def set_NotAcknowledged_def
  set_IncompleteReceive_def set_IncompleteTransmit_def set_TransmitUnderrun_def

lemma send_ack_clean:
  "send_ack bs ps i h = Some (i', h') \<Longrightarrow> clean_info i \<Longrightarrow> clean_info i'"
  by (induction bs ps i h rule: send_ack.induct)
     (auto simp: clean_info_def set_flag_defs split: if_splits)

lemma acknowledge_Inr:
  "acknowledge K p c r l = Inr (a, l') \<Longrightarrow>
     interruptInfo l' = interruptInfo l \<and> acked_total l' = acked_total l + 1"
  by (auto simp: acknowledge_def Let_def acked_total_def split: if_splits)

lemma acknowledge_Inl:
  "acknowledge K p c r l = Inl i \<Longrightarrow> i = set_ArithmeticOverflow (interruptInfo l)"
  by (auto simp: acknowledge_def Let_def split: if_splits)

lemma round_done:
  assumes "ack_round_body K p r l h = Inr (RoundDone l' h')" and "clean_info (interruptInfo l)"
  shows "clean_info (interruptInfo l') \<and> acked_total l' = acked_total l + 1"
proof -
  from assms(1) obtain a l1 i rem h1 h2 where
    ack: "acknowledge K p (tc_at_edge r) rem l = Inr (a, l1)"
    and snd: "send_ack (ackInfo_bytes a) (reply_polls r) (interruptInfo l1) h1 = Some (i, h2)"
    and l': "l' = l1\<lparr>interruptInfo := i\<rparr>"
    unfolding ack_round_body_def Let_def
    by (auto split: if_splits rx_wait.splits option.splits sum.splits prod.splits)
  from acknowledge_Inr [OF ack] have e: "interruptInfo l1 = interruptInfo l"
    and t: "acked_total l1 = acked_total l + 1" by simp_all
  from send_ack_clean [OF snd] assms(2) e have "clean_info i" by simp
  with t l' show ?thesis by (simp add: acked_total_def)
qed

lemma round_aborted:
  assumes "ack_round_body K p r l h = Inr (RoundAborted i h')"
  shows "i = set_IncompleteReceive (interruptInfo l) \<or> i = set_NotAcknowledged (interruptInfo l)
         \<or> i = set_ArithmeticOverflow (interruptInfo l)"
  using assms unfolding ack_round_body_def Let_def
  by (auto split: if_splits rx_wait.splits option.splits sum.splits prod.splits
      dest: acknowledge_Inl)

lemma loop_completed:
  "periodic_loop K p rs l h = Inr (Completed l' h') \<Longrightarrow> clean_info (interruptInfo l) \<Longrightarrow>
     clean_info (interruptInfo l') \<and> remainingInterrupts h' = 0 \<and>
     acked_total l' = acked_total l + of_nat (completed_rounds K p rs l h)"
proof (induction K p rs l h rule: periodic_loop.induct)
  case (1 K period l h)
  then show ?case by (auto split: if_splits)
next
  case (2 K period r rs l h)
  show ?case
  proof (cases "remainingInterrupts h = 0")
    case True
    with 2 show ?thesis by auto
  next
    case False
    with "2.prems"(1) obtain l1 h1 where
      b: "ack_round_body K period r l h = Inr (RoundDone l1 h1)"
      and lp: "periodic_loop K period rs l1 (deliver_irqs (irqs_after r) h1) = Inr (Completed l' h')"
      by (auto split: sum.splits round_result.splits)
    from round_done [OF b "2.prems"(2)] have c: "clean_info (interruptInfo l1)"
      and t: "acked_total l1 = acked_total l + 1" by simp_all
    from "2.IH" [OF False b refl lp c] False b t show ?thesis by simp
  qed
qed

lemma loop_aborted:
  "periodic_loop K p rs l h = Inr (Aborted i h') \<Longrightarrow> clean_info (interruptInfo l) \<Longrightarrow>
     \<exists>i0. clean_info i0 \<and> (i = set_IncompleteReceive i0 \<or> i = set_NotAcknowledged i0
         \<or> i = set_ArithmeticOverflow i0)"
proof (induction K p rs l h rule: periodic_loop.induct)
  case (1 K period l h)
  then show ?case by (auto split: if_splits)
next
  case (2 K period r rs l h)
  show ?case
  proof (cases "remainingInterrupts h = 0")
    case True
    with 2 show ?thesis by auto
  next
    case False
    show ?thesis
    proof (cases "ack_round_body K period r l h")
      case (Inl f)
      with False "2.prems" show ?thesis by simp
    next
      case (Inr res)
      show ?thesis
      proof (cases res)
        case (RoundAborted i1 h1)
        with Inr False "2.prems"(1) have "i1 = i" by simp
        with round_aborted [of K period r l h i h1] Inr RoundAborted "2.prems"(2)
        show ?thesis by blast
      next
        case (RoundDone l1 h1)
        with Inr False "2.prems"(1) have
          lp: "periodic_loop K period rs l1 (deliver_irqs (irqs_after r) h1) = Inr (Aborted i h')"
          by simp
        from round_done [of K period r l h l1 h1] Inr RoundDone "2.prems"(2)
        have c: "clean_info (interruptInfo l1)" by simp
        from "2.IH" [OF False Inr RoundDone lp c] show ?thesis .
      qed
    qed
  qed
qed

lemma clean_init: "clean_info PeriodicInterruptInfo_init"
  by (simp add: clean_info_def PeriodicInterruptInfo_init_def)

lemma abort_flag_set:
  "i = set_IncompleteReceive i0 \<or> i = set_NotAcknowledged i0 \<or> i = set_ArithmeticOverflow i0 \<Longrightarrow>
   ArithmeticOverflow (Status i) \<or> NotAcknowledged (Status i) \<or> IncompleteReceive (Status i)"
  by (auto simp: set_flag_defs)

text \<open>
  C2 (as amended). In a session that returns without any of the three abort flags, the
  three counters of the report add up (in 32-bit arithmetic) to the number of loop
  bodies the session carried to their end, and \<open>InterruptCount\<close> is the count
  computed from the command.
\<close>

theorem bucket_counts_sum_to_rounds:
  assumes "RunPeriodicInterrupts K clockFreq cmd env h = Inr (i, h')"
    and "\<not> ArithmeticOverflow (Status i)" and "\<not> NotAcknowledged (Status i)"
    and "\<not> IncompleteReceive (Status i)"
  shows "AlreadyAcknowledgedCount i + AcknowledgedBeforeDeadlineCount i +
           AcknowledgedAfterDeadlineCount i = of_nat (session_rounds K clockFreq cmd env h) \<and>
         ComputeInterruptCount cmd = Some (InterruptCount i)"
proof -
  let ?p = "clockFreq div InterruptFrequency cmd"
  have f: "InterruptFrequency cmd \<noteq> 0"
    using assms(1) by (auto simp: RunPeriodicInterrupts_def)
  show ?thesis
  proof (cases "ComputeInterruptCount cmd")
    case None
    with assms(1) f have "i = set_ArithmeticOverflow PeriodicInterruptInfo_init"
      by (simp add: RunPeriodicInterrupts_def Let_def)
    with assms(2) show ?thesis by (simp add: set_ArithmeticOverflow_def)
  next
    case (Some n)
    let ?l = "loop_entry_locals n" and ?h = "loop_entry_hw n env (program_timer ?p h)"
    have c: "clean_info (interruptInfo ?l)"
      by (simp add: loop_entry_locals_def clean_init)
    from assms(1) f Some obtain ex where
      lp: "periodic_loop K ?p (rounds env) ?l ?h = Inr ex"
      by (auto simp: RunPeriodicInterrupts_def Let_def split: sum.splits)
    show ?thesis
    proof (cases ex)
      case (Aborted i1 h1)
      with assms(1) f Some lp have "i = i1"
        by (simp add: RunPeriodicInterrupts_def Let_def)
      with loop_aborted [OF lp [unfolded Aborted] c] abort_flag_set assms(2-4)
      show ?thesis by blast
    next
      case (Completed l1 h1)
      with assms(1) f Some lp have i: "i = report n l1"
        by (simp add: RunPeriodicInterrupts_def Let_def)
      from loop_completed [OF lp [unfolded Completed] c]
      have "acked_total l1 = acked_total ?l + of_nat (completed_rounds K ?p (rounds env) ?l ?h)"
        by simp
      then have "acked_total l1 = of_nat (session_rounds K clockFreq cmd env h)"
        by (simp add: session_rounds_def Some acked_total_def loop_entry_locals_def)
      then show ?thesis
        by (simp add: i report_def acked_total_def Some)
    qed
  qed
qed

lemma torn_down_finally: "torn_down (finally_teardown h)"
  by (simp add: torn_down_def finally_teardown_def Let_def DisableSckFallingEdgeDetection_def
      DemuxInterruptOutput_def and.assoc)

lemma run_torn_down:
  assumes "RunPeriodicInterrupts K clockFreq cmd env h = Inr (i, h')"
    and "ComputeInterruptCount cmd \<noteq> None"
  shows "torn_down h'"
  using assms
  by (auto simp: RunPeriodicInterrupts_def Let_def torn_down_finally
      split: if_splits sum.splits loop_exit.splits)

text \<open>
  C3 (as amended). On every return of \<^verbatim>\<open>RunPeriodicInterrupts\<close> that comes after the
  interrupt count was computed (the normal return and every abort inside the loop) the
  teardown has run: the falling-edge interrupt of SCK is disabled, the timer is in
  reset, its interrupt is disabled at the controller, the interrupt output is
  de-asserted and de-muxed, and the activity LED is off.
\<close>

theorem teardown_after_count:
  assumes "RunPeriodicInterrupts K clockFreq cmd env h = Inr (i, h')"
    and "ComputeInterruptCount cmd \<noteq> None"
  shows "torn_down h'"
  using assms by (rule run_torn_down)

text \<open>
  C3 as stated fails on the return that follows a failed \<^verbatim>\<open>ComputeInterruptCount\<close>:
  it comes before the \<^verbatim>\<open>Finally\<close> object exists, so the hardware is returned as
  \<open>program_timer\<close> left it, with the LED still on and the match output still programmed
  to go low on match.
\<close>

theorem overflow_return_skips_teardown:
  "RunPeriodicInterrupts K0 100000000 overflow_cmd no_rounds hw0 =
     Inr (set_ArithmeticOverflow PeriodicInterruptInfo_init, program_timer 0 hw0) \<and>
   ActLed (program_timer 0 hw0) \<and> TIM2_EMR (program_timer 0 hw0) = 0x11 \<and>
   \<not> torn_down (program_timer 0 hw0)"
proof -
  have "ComputeInterruptCount overflow_cmd = None"
    by (simp add: ComputeInterruptCount_def overflow_cmd_def)
  moreover have "(100000000 :: u32) div InterruptFrequency overflow_cmd = 0"
    by (simp add: overflow_cmd_def)
  moreover have "InterruptFrequency overflow_cmd \<noteq> 0" by (simp add: overflow_cmd_def)
  ultimately have "RunPeriodicInterrupts K0 100000000 overflow_cmd no_rounds hw0 =
     Inr (set_ArithmeticOverflow PeriodicInterruptInfo_init, program_timer 0 hw0)"
    by (simp add: RunPeriodicInterrupts_def Let_def)
  moreover have "ActLed (program_timer 0 hw0)" "TIM2_EMR (program_timer 0 hw0) = 0x11"
    by (simp_all add: program_timer_def hw0_def Let_def TIM_MATCH_CHANNEL_0_def
        TIM_EMR_LOW_ON_MATCH_def)
  moreover from this have "\<not> torn_down (program_timer 0 hw0)"
    by (simp add: torn_down_def)
  ultimately show ?thesis by blast
qed

lemma clean_set_flags:
  "clean_info i0 \<Longrightarrow> i = set_NotAcknowledged i0 \<Longrightarrow>
     InterruptCount i = 0 \<and> AcknowledgedBeforeDeadlineCount i = 0 \<and>
     AcknowledgedAfterDeadlineCount i = 0 \<and> AlreadyAcknowledgedCount i = 0 \<and>
     \<not> ArithmeticOverflow (Status i) \<and> NotAcknowledged (Status i) \<and> \<not> IncompleteReceive (Status i)"
  "clean_info i0 \<Longrightarrow> i = set_IncompleteReceive i0 \<Longrightarrow>
     InterruptCount i = 0 \<and> AcknowledgedBeforeDeadlineCount i = 0 \<and>
     AcknowledgedAfterDeadlineCount i = 0 \<and> AlreadyAcknowledgedCount i = 0 \<and>
     \<not> ArithmeticOverflow (Status i) \<and> \<not> NotAcknowledged (Status i) \<and> IncompleteReceive (Status i)"
  "clean_info i0 \<Longrightarrow> i = set_ArithmeticOverflow i0 \<Longrightarrow>
     ArithmeticOverflow (Status i) \<and> \<not> NotAcknowledged (Status i) \<and> \<not> IncompleteReceive (Status i)"
  by (auto simp: clean_info_def set_flag_defs)

lemma session_abort:
  assumes "RunPeriodicInterrupts K clockFreq cmd env h = Inr (i, h')"
    and "NotAcknowledged (Status i) \<or> IncompleteReceive (Status i)"
  shows "InterruptCount i = 0 \<and> AcknowledgedBeforeDeadlineCount i = 0 \<and>
         AcknowledgedAfterDeadlineCount i = 0 \<and> AlreadyAcknowledgedCount i = 0 \<and>
         \<not> ArithmeticOverflow (Status i) \<and>
         \<not> (NotAcknowledged (Status i) \<and> IncompleteReceive (Status i)) \<and> torn_down h'"
proof -
  let ?p = "clockFreq div InterruptFrequency cmd"
  have f: "InterruptFrequency cmd \<noteq> 0"
    using assms(1) by (auto simp: RunPeriodicInterrupts_def)
  show ?thesis
  proof (cases "ComputeInterruptCount cmd")
    case None
    with assms(1) f have "i = set_ArithmeticOverflow PeriodicInterruptInfo_init"
      by (simp add: RunPeriodicInterrupts_def Let_def)
    with assms(2) show ?thesis
      by (simp add: set_ArithmeticOverflow_def PeriodicInterruptInfo_init_def)
  next
    case (Some n)
    let ?l = "loop_entry_locals n" and ?h = "loop_entry_hw n env (program_timer ?p h)"
    have c: "clean_info (interruptInfo ?l)"
      by (simp add: loop_entry_locals_def clean_init)
    from assms(1) f Some obtain ex where
      lp: "periodic_loop K ?p (rounds env) ?l ?h = Inr ex"
      by (auto simp: RunPeriodicInterrupts_def Let_def split: sum.splits)
    have td: "torn_down h'" using run_torn_down [OF assms(1)] Some by simp
    show ?thesis
    proof (cases ex)
      case (Aborted i1 h1)
      with assms(1) f Some lp have "i = i1"
        by (simp add: RunPeriodicInterrupts_def Let_def)
      with loop_aborted [OF lp [unfolded Aborted] c] obtain i0 where
        i0: "clean_info i0" "i = set_IncompleteReceive i0 \<or> i = set_NotAcknowledged i0
           \<or> i = set_ArithmeticOverflow i0" by blast
      from i0(2) show ?thesis
      proof (elim disjE)
        assume "i = set_IncompleteReceive i0"
        from clean_set_flags(2) [OF i0(1) this] td show ?thesis by simp
      next
        assume "i = set_NotAcknowledged i0"
        from clean_set_flags(1) [OF i0(1) this] td show ?thesis by simp
      next
        assume "i = set_ArithmeticOverflow i0"
        from clean_set_flags(3) [OF i0(1) this] assms(2) show ?thesis by simp
      qed
    next
      case (Completed l1 h1)
      with assms(1) f Some lp have i: "i = report n l1"
        by (simp add: RunPeriodicInterrupts_def Let_def)
      from loop_completed [OF lp [unfolded Completed] c] have "clean_info (interruptInfo l1)"
        by simp
      with assms(2) show ?thesis by (simp add: i report_def clean_info_def)
    qed
  qed
qed

text \<open>
  C7 (as amended). In a round of the loop, a first byte that is not the
  \<^verbatim>\<open>AcknowledgeInterrupt\<close> code ends the loop at once with \<open>NotAcknowledged\<close> set in
  the report as it stood, and a chip select released before any byte ends it at once
  with \<open>IncompleteReceive\<close> set; the later rounds are not looked at. A session that
  returns with one of these two flags returns a report whose \<open>InterruptCount\<close> and
  three counters are zero, without \<open>ArithmeticOverflow\<close> and without the other of the
  two flags, after the teardown. (The flags \<open>IncompleteTransmit\<close> and
  \<open>TransmitUnderrun\<close> that earlier rounds recorded stay in the report.)
\<close>

theorem early_abort_report:
  "(remainingInterrupts h \<noteq> 0 \<and> sck_edge r \<and> first_rx r = RxByte b \<and>
      b \<noteq> AcknowledgeInterrupt K \<and> cs_deasserts r \<longrightarrow>
      (\<exists>h1. periodic_loop K p (r # rs) l h =
             Inr (Aborted (set_NotAcknowledged (interruptInfo l)) h1))) \<and>
   (remainingInterrupts h \<noteq> 0 \<and> sck_edge r \<and> first_rx r = RxCsDeasserted \<longrightarrow>
      (\<exists>h1. periodic_loop K p (r # rs) l h =
             Inr (Aborted (set_IncompleteReceive (interruptInfo l)) h1))) \<and>
   (RunPeriodicInterrupts K clockFreq cmd env h0 = Inr (i, h') \<and>
      (NotAcknowledged (Status i) \<or> IncompleteReceive (Status i)) \<longrightarrow>
      InterruptCount i = 0 \<and> AcknowledgedBeforeDeadlineCount i = 0 \<and>
      AcknowledgedAfterDeadlineCount i = 0 \<and> AlreadyAcknowledgedCount i = 0 \<and>
      \<not> ArithmeticOverflow (Status i) \<and>
      \<not> (NotAcknowledged (Status i) \<and> IncompleteReceive (Status i)) \<and> torn_down h')"
proof (intro conjI impI)
  assume "remainingInterrupts h \<noteq> 0 \<and> sck_edge r \<and> first_rx r = RxByte b \<and>
      b \<noteq> AcknowledgeInterrupt K \<and> cs_deasserts r"
  then show "\<exists>h1. periodic_loop K p (r # rs) l h =
             Inr (Aborted (set_NotAcknowledged (interruptInfo l)) h1)"
    by (simp add: ack_round_body_def Let_def WaitForCsToDeassert_def)
next
  assume "remainingInterrupts h \<noteq> 0 \<and> sck_edge r \<and> first_rx r = RxCsDeasserted"
  then show "\<exists>h1. periodic_loop K p (r # rs) l h =
             Inr (Aborted (set_IncompleteReceive (interruptInfo l)) h1)"
    by (simp add: ack_round_body_def Let_def)
next
  assume a: "RunPeriodicInterrupts K clockFreq cmd env h0 = Inr (i, h') \<and>
      (NotAcknowledged (Status i) \<or> IncompleteReceive (Status i))"
  then have r: "RunPeriodicInterrupts K clockFreq cmd env h0 = Inr (i, h')"
    and fl: "NotAcknowledged (Status i) \<or> IncompleteReceive (Status i)" by blast+
  from session_abort [OF r fl]
  show "InterruptCount i = 0" "AcknowledgedBeforeDeadlineCount i = 0"
    "AcknowledgedAfterDeadlineCount i = 0" "AlreadyAcknowledgedCount i = 0"
    "\<not> ArithmeticOverflow (Status i)"
    "\<not> (NotAcknowledged (Status i) \<and> IncompleteReceive (Status i))" "torn_down h'"
    by blast+
qed

lemma send_ack_cut:
  assumes "\<forall>q\<in>set pre. fst q AND SSP_SR_TFE = 0 \<and> snd q"
    and "length (filter (\<lambda>q. fst q AND SSP_SR_TNF \<noteq> 0) pre) < length bs"
    and "st AND SSP_SR_TFE \<noteq> 0 \<or> \<not> cs"
  shows "\<exists>h'. send_ack bs (pre @ (st, cs) # post) i h =
           Some (if st AND SSP_SR_TFE \<noteq> 0 then set_TransmitUnderrun i
                 else set_IncompleteTransmit i, h')"
  using assms
proof (induction pre arbitrary: bs h)
  case Nil
  then obtain b bs' where bs: "bs = b # bs'" by (cases bs) auto
  from Nil(3) show ?case by (auto simp: bs)
next
  case (Cons q pre)
  obtain s c where q: "q = (s, c)" by (cases q)
  from Cons.prems(2) obtain b bs' where bs: "bs = b # bs'" by (cases bs) auto
  from Cons.prems(1) have s: "s AND SSP_SR_TFE = 0" and c: c and
    rest: "\<forall>q\<in>set pre. fst q AND SSP_SR_TFE = 0 \<and> snd q"
    by (simp_all add: q)
  show ?case
  proof (cases "s AND SSP_SR_TNF \<noteq> 0")
    case True
    with Cons.prems(2) have "length (filter (\<lambda>q. fst q AND SSP_SR_TNF \<noteq> 0) pre) < length bs'"
      by (simp add: q bs)
    from Cons.IH [OF rest this Cons.prems(3), of "write_DR (ucast b) h"] True s c
    show ?thesis by (simp add: q bs)
  next
    case False
    with Cons.prems(2) have "length (filter (\<lambda>q. fst q AND SSP_SR_TNF \<noteq> 0) pre) < length bs"
      by (simp add: q)
    from Cons.IH [OF rest this Cons.prems(3), of h] False s c
    show ?thesis by (simp add: q bs)
  qed
qed

lemma acknowledge_returns:
  "0 \<le> sint (lastAckedInterruptCount l - remaining) \<Longrightarrow>
     \<exists>a l'. acknowledge K period capture remaining l = Inr (a, l')"
  by (auto simp: acknowledge_def Let_def)

lemma length_ackInfo_bytes: "length (ackInfo_bytes a) = 8"
  by (simp add: ackInfo_bytes_def u32_bytes_def)

lemma set_flag_Status:
  "TransmitUnderrun (Status (set_TransmitUnderrun i))"
  "IncompleteTransmit (Status (set_IncompleteTransmit i))"
  by (simp_all add: set_flag_defs)

lemma send_ack_keeps:
  "send_ack bs ps i h = Some (i', h') \<Longrightarrow>
     remainingInterrupts h' = remainingInterrupts h \<and>
     (TransmitUnderrun (Status i) \<longrightarrow> TransmitUnderrun (Status i')) \<and>
     (IncompleteTransmit (Status i) \<longrightarrow> IncompleteTransmit (Status i'))"
  by (induction bs ps i h rule: send_ack.induct)
     (auto simp: set_flag_defs write_DR_def split: if_splits)

lemma WaitForCsToDeassert_remaining:
  "WaitForCsToDeassert reads ends h = Some h' \<Longrightarrow> remainingInterrupts h' = remainingInterrupts h"
proof -
  have "remainingInterrupts (foldl (\<lambda>h v. h\<lparr>dummy := v\<rparr>) h reads) = remainingInterrupts h"
    by (induction reads arbitrary: h) simp_all
  then show "WaitForCsToDeassert reads ends h = Some h' \<Longrightarrow>
      remainingInterrupts h' = remainingInterrupts h"
    by (auto simp: WaitForCsToDeassert_def split: if_splits)
qed

lemma round_done_flags:
  assumes "ack_round_body K p r l h = Inr (RoundDone l' h')"
  shows "(TransmitUnderrun (Status (interruptInfo l)) \<longrightarrow>
            TransmitUnderrun (Status (interruptInfo l'))) \<and>
         (IncompleteTransmit (Status (interruptInfo l)) \<longrightarrow>
            IncompleteTransmit (Status (interruptInfo l')))"
proof -
  from assms obtain a l1 i rem h1 h2 where
    ack: "acknowledge K p (tc_at_edge r) rem l = Inr (a, l1)"
    and snd: "send_ack (ackInfo_bytes a) (reply_polls r) (interruptInfo l1) h1 = Some (i, h2)"
    and l': "l' = l1\<lparr>interruptInfo := i\<rparr>"
    unfolding ack_round_body_def Let_def
    by (auto split: if_splits rx_wait.splits option.splits sum.splits prod.splits)
  from acknowledge_Inr [OF ack] have e: "interruptInfo l1 = interruptInfo l" by simp
  from send_ack_keeps [OF snd] e l' show ?thesis by simp
qed

lemma loop_completed_flags:
  "periodic_loop K p rs l h = Inr (Completed l' h') \<Longrightarrow>
     (TransmitUnderrun (Status (interruptInfo l)) \<longrightarrow>
        TransmitUnderrun (Status (interruptInfo l'))) \<and>
     (IncompleteTransmit (Status (interruptInfo l)) \<longrightarrow>
        IncompleteTransmit (Status (interruptInfo l')))"
proof (induction K p rs l h rule: periodic_loop.induct)
  case (1 K period l h)
  then show ?case by (auto split: if_splits)
next
  case (2 K period r rs l h)
  show ?case
  proof (cases "remainingInterrupts h = 0")
    case True
    with 2 show ?thesis by auto
  next
    case False
    with "2.prems" obtain l1 h1 where
      b: "ack_round_body K period r l h = Inr (RoundDone l1 h1)"
      and lp: "periodic_loop K period rs l1 (deliver_irqs (irqs_after r) h1) = Inr (Completed l' h')"
      by (auto split: sum.splits round_result.splits)
    from "2.IH" [OF False b refl lp] round_done_flags [OF b] show ?thesis by blast
  qed
qed

lemma loop_done_at_zero:
  "remainingInterrupts h = 0 \<Longrightarrow> periodic_loop K p rs l h = Inr (Completed l h)"
  by (cases rs) simp_all

text \<open>
  C8. While the reply is sent (some of its eight bytes are still to be written, no poll
  so far has found the transmit FIFO empty or the chip select released): a poll that
  finds the transmit FIFO empty sets \<open>TransmitUnderrun\<close>, and otherwise a released chip
  select sets \<open>IncompleteTransmit\<close>; in both cases the loop body ends normally, with the
  interrupt counter as it read it, and the loop goes on with the next round. When no
  interrupt remains after the round the loop ends normally with the flag in the
  report, and whenever the later rounds run to the end of the loop the whole loop does,
  with the flag still set in the report.
\<close>

theorem reply_faults_not_fatal:
  assumes "remainingInterrupts h \<noteq> 0" and "sck_edge r"
    and "first_rx r = RxByte (AcknowledgeInterrupt K)"
    and "0 \<le> sint (lastAckedInterruptCount l -
            remainingInterrupts (deliver_irqs (irqs_before r) (flush_fifo 8 0 (flush_reads r) h)))"
    and "reply_polls r = pre @ (st, cs) # post"
    and "\<forall>q\<in>set pre. fst q AND SSP_SR_TFE = 0 \<and> snd q"
    and "length (filter (\<lambda>q. fst q AND SSP_SR_TNF \<noteq> 0) pre) < 8"
    and "st AND SSP_SR_TFE \<noteq> 0 \<or> \<not> cs"
    and "cs_deasserts r"
  shows "\<exists>l' h'. ack_round_body K p r l h = Inr (RoundDone l' h') \<and>
           periodic_loop K p (r # rs) l h =
             periodic_loop K p rs l' (deliver_irqs (irqs_after r) h') \<and>
           (if st AND SSP_SR_TFE \<noteq> 0 then TransmitUnderrun (Status (interruptInfo l'))
            else IncompleteTransmit (Status (interruptInfo l'))) \<and>
           remainingInterrupts h' =
             remainingInterrupts
               (deliver_irqs (irqs_before r) (flush_fifo 8 0 (flush_reads r) h)) \<and>
           (remainingInterrupts (deliver_irqs (irqs_after r) h') = 0 \<longrightarrow>
              periodic_loop K p (r # rs) l h =
                Inr (Completed l' (deliver_irqs (irqs_after r) h'))) \<and>
           (\<forall>l2 h2. periodic_loop K p rs l' (deliver_irqs (irqs_after r) h') =
                       Inr (Completed l2 h2) \<longrightarrow>
              periodic_loop K p (r # rs) l h = Inr (Completed l2 h2) \<and>
              (if st AND SSP_SR_TFE \<noteq> 0 then TransmitUnderrun (Status (interruptInfo l2))
               else IncompleteTransmit (Status (interruptInfo l2))))"
proof -
  let ?h1 = "deliver_irqs (irqs_before r) (flush_fifo 8 0 (flush_reads r) h)"
  let ?h2 = "?h1\<lparr>IO0IntClr := push_bit 15 1,
      TIM2_EMR := TIM2_EMR ?h1 OR push_bit TIM_MATCH_CHANNEL_0 1, irq_masked := True\<rparr>"
  from acknowledge_returns [OF assms(4), of K p "tc_at_edge r"]
  obtain a l1 where
    ack: "acknowledge K p (tc_at_edge r) (remainingInterrupts ?h1) l = Inr (a, l1)" by blast
  let ?i = "if st AND SSP_SR_TFE \<noteq> 0 then set_TransmitUnderrun (interruptInfo l1)
            else set_IncompleteTransmit (interruptInfo l1)"
  from send_ack_cut [OF assms(6) _ assms(8), of "ackInfo_bytes a" post "interruptInfo l1" ?h2]
    assms(7)
  obtain h3 where
    snd: "send_ack (ackInfo_bytes a) (reply_polls r) (interruptInfo l1) ?h2 = Some (?i, h3)"
    by (auto simp: length_ackInfo_bytes assms(5))
  obtain h4 where w: "WaitForCsToDeassert (drained r) (cs_deasserts r) h3 = Some h4"
    using assms(9) by (simp add: WaitForCsToDeassert_def)
  let ?l' = "l1\<lparr>interruptInfo := ?i\<rparr>" and ?h' = "h4\<lparr>irq_masked := False\<rparr>"
  let ?hn = "deliver_irqs (irqs_after r) ?h'"
  have b: "ack_round_body K p r l h = Inr (RoundDone ?l' ?h')"
    unfolding ack_round_body_def Let_def using assms(2,3) ack snd w
    by simp
  have lp: "periodic_loop K p (r # rs) l h = periodic_loop K p rs ?l' ?hn"
    using assms(1) b by simp
  have fl: "if st AND SSP_SR_TFE \<noteq> 0
      then TransmitUnderrun (Status (interruptInfo ?l'))
      else IncompleteTransmit (Status (interruptInfo ?l'))"
    by (simp add: set_flag_Status)
  have rem: "remainingInterrupts ?h' = remainingInterrupts ?h1"
    using send_ack_keeps [OF snd] WaitForCsToDeassert_remaining [OF w] by simp
  have last: "remainingInterrupts ?hn = 0 \<longrightarrow>
      periodic_loop K p (r # rs) l h = Inr (Completed ?l' ?hn)"
    using lp by (simp add: loop_done_at_zero)
  have later: "\<forall>l2 h2. periodic_loop K p rs ?l' ?hn = Inr (Completed l2 h2) \<longrightarrow>
      periodic_loop K p (r # rs) l h = Inr (Completed l2 h2) \<and>
      (if st AND SSP_SR_TFE \<noteq> 0 then TransmitUnderrun (Status (interruptInfo l2))
       else IncompleteTransmit (Status (interruptInfo l2)))"
  proof (intro allI impI)
    fix l2 h2
    assume c: "periodic_loop K p rs ?l' ?hn = Inr (Completed l2 h2)"
    from loop_completed_flags [OF c] fl
    have "if st AND SSP_SR_TFE \<noteq> 0 then TransmitUnderrun (Status (interruptInfo l2))
       else IncompleteTransmit (Status (interruptInfo l2))"
      by (simp split: if_splits)
    with c lp show "periodic_loop K p (r # rs) l h = Inr (Completed l2 h2) \<and>
      (if st AND SSP_SR_TFE \<noteq> 0 then TransmitUnderrun (Status (interruptInfo l2))
       else IncompleteTransmit (Status (interruptInfo l2)))" by simp
  qed
  from b lp fl rem last later show ?thesis by blast
qed

lemmas example_defs = K0_def two_cmd_def late_env_def late_round_def full_reply_def hw0_def
  cut_round_def underrun_round_def wrong_round_def dropped_round_def nack_env_def
  hw_armed_def no_rounds_def locals0_def last_round_def cut_env_def underrun_env_def
  hw_armed1_def

lemma map_sum_fst_Inr: "map_sum id fst x = Inr i \<Longrightarrow> \<exists>h'. x = Inr (i, h')"
  by (cases x) auto

lemma late_session:
  "map_sum id fst (RunPeriodicInterrupts K0 100000000 two_cmd late_env hw0) =
   Inr \<lparr>Status = \<lparr>ArithmeticOverflow = False, NotAcknowledged = False,
                 IncompleteReceive = False, IncompleteTransmit = False,
                 TransmitUnderrun = False\<rparr>,
      InterruptCount = 2, AcknowledgedBeforeDeadlineCount = 0,
      AcknowledgedAfterDeadlineCount = 1, AlreadyAcknowledgedCount = 0\<rparr>"
  by (simp add: periodic_defs hw_consts Let_def example_defs)

lemma late_rounds: "session_rounds K0 100000000 two_cmd late_env hw0 = 1"
  by (simp add: session_rounds_def periodic_defs hw_consts Let_def example_defs)

lemma nack_session:
  "map_sum id fst (RunPeriodicInterrupts K0 100000000 two_cmd nack_env hw0) =
   Inr \<lparr>Status = \<lparr>ArithmeticOverflow = False, NotAcknowledged = True,
                 IncompleteReceive = False, IncompleteTransmit = True,
                 TransmitUnderrun = False\<rparr>,
      InterruptCount = 0, AcknowledgedBeforeDeadlineCount = 0,
      AcknowledgedAfterDeadlineCount = 0, AlreadyAcknowledgedCount = 0\<rparr>"
  by (simp add: periodic_defs hw_consts Let_def example_defs)

lemma armed_remaining: "remainingInterrupts hw_armed = 2"
  by (simp add: periodic_defs hw_consts Let_def example_defs)

lemma armed_after_irq:
  "remainingInterrupts (deliver_irqs 1 (flush_fifo 8 0 (\<lambda>k. 0) hw_armed)) = 1"
  by (simp add: periodic_defs hw_consts Let_def example_defs)

text \<open>
  C2 as stated fails: when the master answers only after both interrupts of a session
  of two have fired, one round acknowledges both; the session completes with
  \<open>InterruptCount = 2\<close> and the three counters 0, 0 and 1.
\<close>

theorem late_acknowledgement_session:
  "map_sum id fst (RunPeriodicInterrupts K0 100000000 two_cmd late_env hw0) =
   Inr \<lparr>Status = \<lparr>ArithmeticOverflow = False, NotAcknowledged = False,
                 IncompleteReceive = False, IncompleteTransmit = False,
                 TransmitUnderrun = False\<rparr>,
      InterruptCount = 2, AcknowledgedBeforeDeadlineCount = 0,
      AcknowledgedAfterDeadlineCount = 1, AlreadyAcknowledgedCount = 0\<rparr>"
  by (rule late_session)

theorem bucket_counts_sum_to_rounds_witness:
  "\<exists>i h'. RunPeriodicInterrupts K0 100000000 two_cmd late_env hw0 = Inr (i, h') \<and>
     AlreadyAcknowledgedCount i + AcknowledgedBeforeDeadlineCount i +
       AcknowledgedAfterDeadlineCount i = 1 \<and>
     session_rounds K0 100000000 two_cmd late_env hw0 = 1 \<and>
     ComputeInterruptCount two_cmd = Some (InterruptCount i)"
proof -
  from map_sum_fst_Inr [OF late_session] obtain h' where
    r: "RunPeriodicInterrupts K0 100000000 two_cmd late_env hw0 =
      Inr (\<lparr>Status = \<lparr>ArithmeticOverflow = False, NotAcknowledged = False,
                 IncompleteReceive = False, IncompleteTransmit = False,
                 TransmitUnderrun = False\<rparr>,
      InterruptCount = 2, AcknowledgedBeforeDeadlineCount = 0,
      AcknowledgedAfterDeadlineCount = 1, AlreadyAcknowledgedCount = 0\<rparr>, h')" by blast
  from bucket_counts_sum_to_rounds [OF r] r late_rounds show ?thesis by simp
qed

theorem teardown_after_count_witness:
  "\<exists>i h'. RunPeriodicInterrupts K0 100000000 two_cmd nack_env hw0 = Inr (i, h') \<and>
     NotAcknowledged (Status i) \<and> torn_down h'"
proof -
  from map_sum_fst_Inr [OF nack_session] obtain i h' where
    r: "RunPeriodicInterrupts K0 100000000 two_cmd nack_env hw0 = Inr (i, h')"
    and i: "NotAcknowledged (Status i)" by fastforce
  have "ComputeInterruptCount two_cmd \<noteq> None"
    by (simp add: ComputeInterruptCount_def two_cmd_def)
  from teardown_after_count [OF r this] r i show ?thesis by blast
qed

theorem early_abort_report_witness:
  "(\<exists>h1. periodic_loop K0 50000000 [wrong_round] (locals0 2) hw_armed =
       Inr (Aborted (set_NotAcknowledged PeriodicInterruptInfo_init) h1)) \<and>
   (\<exists>h1. periodic_loop K0 50000000 [dropped_round] (locals0 2) hw_armed =
       Inr (Aborted (set_IncompleteReceive PeriodicInterruptInfo_init) h1)) \<and>
   (\<exists>i h'. RunPeriodicInterrupts K0 100000000 two_cmd nack_env hw0 = Inr (i, h') \<and>
       NotAcknowledged (Status i) \<and> IncompleteTransmit (Status i) \<and>
       InterruptCount i = 0 \<and> AcknowledgedBeforeDeadlineCount i = 0 \<and>
       AcknowledgedAfterDeadlineCount i = 0 \<and> AlreadyAcknowledgedCount i = 0 \<and>
       torn_down h')"
proof -
  from map_sum_fst_Inr [OF nack_session] obtain i h' where
    r: "RunPeriodicInterrupts K0 100000000 two_cmd nack_env hw0 = Inr (i, h')"
    and i: "NotAcknowledged (Status i)" "IncompleteTransmit (Status i)" by fastforce
  note t = early_abort_report [where h = hw_armed and K = K0 and p = 50000000 and rs = "[]"
      and l = "locals0 2" and clockFreq = 100000000 and cmd = two_cmd and env = nack_env
      and ?h0.0 = hw0 and i = i and h' = h']
  have w: "sck_edge wrong_round" "first_rx wrong_round = RxByte 0" "(0::u32) \<noteq> AcknowledgeInterrupt K0"
    "cs_deasserts wrong_round" by (simp_all add: wrong_round_def K0_def)
  have d: "sck_edge dropped_round" "first_rx dropped_round = RxCsDeasserted"
    by (simp_all add: dropped_round_def)
  have l: "interruptInfo (locals0 2) = PeriodicInterruptInfo_init"
    by (simp add: locals0_def loop_entry_locals_def)
  from t [where r = wrong_round and b = 0] w armed_remaining l
  have 1: "\<exists>h1. periodic_loop K0 50000000 [wrong_round] (locals0 2) hw_armed =
       Inr (Aborted (set_NotAcknowledged PeriodicInterruptInfo_init) h1)" by simp
  from t [where r = dropped_round and b = 0] d armed_remaining l
  have 2: "\<exists>h1. periodic_loop K0 50000000 [dropped_round] (locals0 2) hw_armed =
       Inr (Aborted (set_IncompleteReceive PeriodicInterruptInfo_init) h1)" by simp
  from t [where r = dropped_round and b = 0] r i
  have 3: "InterruptCount i = 0 \<and> AcknowledgedBeforeDeadlineCount i = 0 \<and>
       AcknowledgedAfterDeadlineCount i = 0 \<and> AlreadyAcknowledgedCount i = 0 \<and>
       torn_down h'" by simp
  from 1 2 3 r i show ?thesis by blast
qed

lemma cut_session:
  "map_sum id fst (RunPeriodicInterrupts K0 100000000 two_cmd cut_env hw0) =
   Inr \<lparr>Status = \<lparr>ArithmeticOverflow = False, NotAcknowledged = False,
                 IncompleteReceive = False, IncompleteTransmit = True,
                 TransmitUnderrun = False\<rparr>,
      InterruptCount = 2, AcknowledgedBeforeDeadlineCount = 2,
      AcknowledgedAfterDeadlineCount = 0, AlreadyAcknowledgedCount = 0\<rparr>"
  by (simp add: periodic_defs hw_consts Let_def example_defs)

lemma underrun_session:
  "map_sum id fst (RunPeriodicInterrupts K0 100000000 two_cmd underrun_env hw0) =
   Inr \<lparr>Status = \<lparr>ArithmeticOverflow = False, NotAcknowledged = False,
                 IncompleteReceive = False, IncompleteTransmit = False,
                 TransmitUnderrun = True\<rparr>,
      InterruptCount = 2, AcknowledgedBeforeDeadlineCount = 2,
      AcknowledgedAfterDeadlineCount = 0, AlreadyAcknowledgedCount = 0\<rparr>"
  by (simp add: periodic_defs hw_consts Let_def example_defs)

lemma armed1_remaining: "remainingInterrupts hw_armed1 = 1"
  by (simp add: periodic_defs hw_consts Let_def example_defs)

lemma armed1_after_irq:
  "remainingInterrupts (deliver_irqs 1 (flush_fifo 8 0 (\<lambda>k. 0) hw_armed1)) = 0"
  by (simp add: periodic_defs hw_consts Let_def example_defs)

theorem reply_faults_not_fatal_witness:
  "(\<exists>l' h'. ack_round_body K0 50000000 cut_round (locals0 2) hw_armed = Inr (RoundDone l' h') \<and>
       IncompleteTransmit (Status (interruptInfo l')) \<and> remainingInterrupts h' = 1) \<and>
   (\<exists>l' h'. ack_round_body K0 50000000 underrun_round (locals0 2) hw_armed =
       Inr (RoundDone l' h') \<and> TransmitUnderrun (Status (interruptInfo l')) \<and>
       remainingInterrupts h' = 1) \<and>
   (\<exists>l' h'. periodic_loop K0 100000000 [cut_round] (locals0 1) hw_armed1 =
       Inr (Completed l' h') \<and> IncompleteTransmit (Status (interruptInfo l'))) \<and>
   (\<exists>l' h'. periodic_loop K0 100000000 [underrun_round] (locals0 1) hw_armed1 =
       Inr (Completed l' h') \<and> TransmitUnderrun (Status (interruptInfo l'))) \<and>
   map_sum id fst (RunPeriodicInterrupts K0 100000000 two_cmd cut_env hw0) =
     Inr \<lparr>Status = \<lparr>ArithmeticOverflow = False, NotAcknowledged = False,
                   IncompleteReceive = False, IncompleteTransmit = True,
                   TransmitUnderrun = False\<rparr>,
        InterruptCount = 2, AcknowledgedBeforeDeadlineCount = 2,
        AcknowledgedAfterDeadlineCount = 0, AlreadyAcknowledgedCount = 0\<rparr> \<and>
   map_sum id fst (RunPeriodicInterrupts K0 100000000 two_cmd underrun_env hw0) =
     Inr \<lparr>Status = \<lparr>ArithmeticOverflow = False, NotAcknowledged = False,
                   IncompleteReceive = False, IncompleteTransmit = False,
                   TransmitUnderrun = True\<rparr>,
        InterruptCount = 2, AcknowledgedBeforeDeadlineCount = 2,
        AcknowledgedAfterDeadlineCount = 0, AlreadyAcknowledgedCount = 0\<rparr>"
proof -
  have n: "lastAckedInterruptCount (locals0 2) = 2" "lastAckedInterruptCount (locals0 1) = 1"
    by (simp_all add: locals0_def loop_entry_locals_def)
  have a: "remainingInterrupts hw_armed \<noteq> 0" by (simp add: armed_remaining)
  have a1: "remainingInterrupts hw_armed1 \<noteq> 0" by (simp add: armed1_remaining)
  have c: "0 \<le> sint (lastAckedInterruptCount (locals0 2) -
      remainingInterrupts (deliver_irqs (irqs_before cut_round)
         (flush_fifo 8 0 (flush_reads cut_round) hw_armed)))"
    using armed_after_irq by (simp add: cut_round_def n)
  have u: "0 \<le> sint (lastAckedInterruptCount (locals0 2) -
      remainingInterrupts (deliver_irqs (irqs_before underrun_round)
         (flush_fifo 8 0 (flush_reads underrun_round) hw_armed)))"
    using armed_after_irq by (simp add: underrun_round_def n)
  have c1: "0 \<le> sint (lastAckedInterruptCount (locals0 1) -
      remainingInterrupts (deliver_irqs (irqs_before cut_round)
         (flush_fifo 8 0 (flush_reads cut_round) hw_armed1)))"
    using armed1_after_irq by (simp add: cut_round_def n)
  have u1: "0 \<le> sint (lastAckedInterruptCount (locals0 1) -
      remainingInterrupts (deliver_irqs (irqs_before underrun_round)
         (flush_fifo 8 0 (flush_reads underrun_round) hw_armed1)))"
    using armed1_after_irq by (simp add: underrun_round_def n)
  have 1: "\<exists>l' h'. ack_round_body K0 50000000 cut_round (locals0 2) hw_armed =
       Inr (RoundDone l' h') \<and> IncompleteTransmit (Status (interruptInfo l')) \<and>
       remainingInterrupts h' = 1"
    using reply_faults_not_fatal [OF a _ _ c, of K0 "[]" 2 False "[]" 50000000 "[]"]
      armed_after_irq
    by (auto simp: cut_round_def K0_def SSP_SR_TFE_def)
  have 2: "\<exists>l' h'. ack_round_body K0 50000000 underrun_round (locals0 2) hw_armed =
       Inr (RoundDone l' h') \<and> TransmitUnderrun (Status (interruptInfo l')) \<and>
       remainingInterrupts h' = 1"
    using reply_faults_not_fatal [OF a _ _ u, of K0 "[(2, True)]" 3 True "[]" 50000000 "[]"]
      armed_after_irq
    by (auto simp: underrun_round_def K0_def SSP_SR_TFE_def SSP_SR_TNF_def)
  have 3: "\<exists>l' h'. periodic_loop K0 100000000 [cut_round] (locals0 1) hw_armed1 =
       Inr (Completed l' h') \<and> IncompleteTransmit (Status (interruptInfo l'))"
    using reply_faults_not_fatal [OF a1 _ _ c1, of K0 "[]" 2 False "[]" 100000000 "[]"]
      armed1_after_irq
    by (auto simp: cut_round_def K0_def SSP_SR_TFE_def)
  have 4: "\<exists>l' h'. periodic_loop K0 100000000 [underrun_round] (locals0 1) hw_armed1 =
       Inr (Completed l' h') \<and> TransmitUnderrun (Status (interruptInfo l'))"
    using reply_faults_not_fatal [OF a1 _ _ u1, of K0 "[(2, True)]" 3 True "[]" 100000000 "[]"]
      armed1_after_irq
    by (auto simp: underrun_round_def K0_def SSP_SR_TFE_def SSP_SR_TNF_def)
  from 1 2 3 4 cut_session underrun_session show ?thesis by blast
qed

text \<open>
  C7 as stated fails where it says that the report carries the abort flag only: after a
  round whose reply the master cut short, a round with a wrong first byte returns a
  report with both \<open>NotAcknowledged\<close> and \<open>IncompleteTransmit\<close>.
\<close>

theorem abort_after_incomplete_transmit:
  "map_sum id fst (RunPeriodicInterrupts K0 100000000 two_cmd nack_env hw0) =
   Inr \<lparr>Status = \<lparr>ArithmeticOverflow = False, NotAcknowledged = True,
                 IncompleteReceive = False, IncompleteTransmit = True,
                 TransmitUnderrun = False\<rparr>,
      InterruptCount = 0, AcknowledgedBeforeDeadlineCount = 0,
      AcknowledgedAfterDeadlineCount = 0, AlreadyAcknowledgedCount = 0\<rparr>"
  by (rule nack_session)

end
